theory Spec2Isabelle
  imports Complex_Main
begin

section \<open>types.ts: scopes and their storage key\<close>

text \<open>
  \<^verbatim>\<open>type Scope = { type: 'global' } | { type: string; id?: string }\<close>.
  Both alternatives are objects with a \<open>type\<close> string and an optional \<open>id\<close> string, so one
  record with an optional field holds every value of the union.
\<close>

record Scope =
  scopeType :: string
  scopeId :: "string option"

text \<open>
  \<^verbatim>\<open>typedScope.id ? `${type}:${id}` : type\<close>: the test is JavaScript truthiness, so a missing
  id and the empty string both take the second branch.
\<close>

definition scopeKey :: "Scope \<Rightarrow> string" where
  "scopeKey scope =
     (if scopeType scope = ''global'' then ''global''
      else (case scopeId scope of
              None \<Rightarrow> scopeType scope
            | Some i \<Rightarrow> if i = [] then scopeType scope else scopeType scope @ '':'' @ i))"

section \<open>db.ts: JSON text\<close>

text \<open>
  The values \<^verbatim>\<open>JSON.stringify\<close> is given by this code are plain data: payloads, entity
  data, error objects. Numbers are integers here (timestamps and counters); an object is
  the list of its own properties in enumeration order.
\<close>

datatype json =
    JNull
  | JBool bool
  | JNum int
  | JStr string
  | JArr "json list"
  | JObj "(string \<times> json) list"

function showNat :: "nat \<Rightarrow> string" where
  "showNat n = (if n < 10 then [char_of (48 + n)] else showNat (n div 10) @ [char_of (48 + n mod 10)])"
  by pat_completeness auto
termination
  by (relation "measure (\<lambda>n. n)") auto

declare showNat.simps [simp del]

definition showInt :: "int \<Rightarrow> string" where
  "showInt i = (if i < 0 then ''-'' @ showNat (nat (- i)) else showNat (nat i))"

definition hexDigit :: "nat \<Rightarrow> char" where
  "hexDigit d = (if d < 10 then char_of (48 + d) else char_of (87 + d))"

text \<open>
  String quoting of \<^verbatim>\<open>JSON.stringify\<close>: the quotation mark and the backslash are
  escaped, control characters get their short escape or \<^verbatim>\<open>\u00XX\<close>.
\<close>

definition escapeChar :: "char \<Rightarrow> string" where
  "escapeChar c =
     (let n = (of_char c :: nat) in
      if n = 34 then [CHR 0x5C, CHR 0x22]
      else if n = 92 then [CHR 0x5C, CHR 0x5C]
      else if n = 8 then [CHR 0x5C, CHR ''b'']
      else if n = 9 then [CHR 0x5C, CHR ''t'']
      else if n = 10 then [CHR 0x5C, CHR ''n'']
      else if n = 12 then [CHR 0x5C, CHR ''f'']
      else if n = 13 then [CHR 0x5C, CHR ''r'']
      else if n < 32 then [CHR 0x5C, CHR ''u'', CHR ''0'', CHR ''0'', hexDigit (n div 16), hexDigit (n mod 16)]
      else [c])"

definition quote :: "string \<Rightarrow> string" where
  "quote s = [CHR 0x22] @ concat (map escapeChar s) @ [CHR 0x22]"

fun joinComma :: "string list \<Rightarrow> string" where
  "joinComma [] = []"
| "joinComma [s] = s"
| "joinComma (s # t # ss) = s @ '','' @ joinComma (t # ss)"

primrec JSON_stringify :: "json \<Rightarrow> string" where
  "JSON_stringify JNull = ''null''"
| "JSON_stringify (JBool b) = (if b then ''true'' else ''false'')"
| "JSON_stringify (JNum i) = showInt i"
| "JSON_stringify (JStr s) = quote s"
| "JSON_stringify (JArr xs) = ''['' @ joinComma (map JSON_stringify xs) @ '']''"
| "JSON_stringify (JObj fs) =
     ''{'' @ joinComma (map (\<lambda>kv. quote (fst kv) @ '':'' @ snd kv) (map (map_prod (\<lambda>k. k) JSON_stringify) fs)) @ ''}''"

text \<open>
  \<^verbatim>\<open>safeJsonEncode\<close>: its fallback branch is for values \<^verbatim>\<open>JSON.stringify\<close> throws on
  (cyclic objects), which \<^typ>\<open>json\<close> does not contain.
\<close>

definition safeJsonEncode :: "json \<Rightarrow> string" where
  "safeJsonEncode v = JSON_stringify v"

section \<open>SQLite's LIKE\<close>

text \<open>
  The entity lookups compare \<^verbatim>\<open>payload_json LIKE ?\<close>. In SQLite's default
  configuration \<^verbatim>\<open>%\<close> in the pattern matches any run of characters, \<^verbatim>\<open>_\<close> matches any single
  character, and every other character matches itself, ASCII letters without regard to case.
  The queries give no ESCAPE clause.
\<close>

definition asciiLower :: "char \<Rightarrow> char" where
  "asciiLower c = (let n = (of_char c :: nat) in if 65 \<le> n \<and> n \<le> 90 then char_of (n + 32) else c)"

fun sqlLike :: "string \<Rightarrow> string \<Rightarrow> bool" where
  "sqlLike [] [] = True"
| "sqlLike [] (c # cs) = False"
| "sqlLike (p # ps) [] = (p = CHR ''%'' \<and> sqlLike ps [])"
| "sqlLike (p # ps) (c # cs) =
     (if p = CHR ''%'' then sqlLike ps (c # cs) \<or> sqlLike (p # ps) cs
      else (p = CHR ''_'' \<or> asciiLower p = asciiLower c) \<and> sqlLike ps cs)"

text \<open>\<^verbatim>\<open>LIMIT n\<close>: a negative bound means no bound.\<close>

definition sqlLimit :: "int \<Rightarrow> 'a list \<Rightarrow> 'a list" where
  "sqlLimit n rows = (if n < 0 then rows else take (nat n) rows)"

section \<open>db.ts: the tables\<close>

datatype OutboxOpType = OpUpsert | OpDelete | OpCustom

datatype OutboxOpState = Pending | InFlight | Succeeded | Failed | Blocked

text \<open>
  A row of \<^verbatim>\<open>outbox_ops\<close>. The only INSERT is \<^verbatim>\<open>Outbox.enqueue\<close>, which stores
  \<^verbatim>\<open>safeJsonEncode(options.payload)\<close> in \<^verbatim>\<open>payload_json\<close>; the row keeps the payload value and
  \<open>payloadJson\<close> is the column's text. Reading the column back through \<^verbatim>\<open>safeJsonDecode\<close>
  gives the payload (\<^verbatim>\<open>JSON.parse\<close> inverts \<^verbatim>\<open>JSON.stringify\<close> on plain data).
\<close>

record OutboxOp =
  opId :: string
  opScopeKey :: string
  opEntityKey :: string
  opType :: OutboxOpType
  idempotencyKey :: string
  payload :: json
  attemptCount :: nat
  state :: OutboxOpState
  lastErrorJson :: "string option"
  opCreatedAt :: int
  opUpdatedAt :: int

definition payloadJson :: "OutboxOp \<Rightarrow> string" where
  "payloadJson op = safeJsonEncode (payload op)"

record Conflict =
  conflictId :: string
  cScopeKey :: string
  cEntityKey :: string
  cEntityId :: string
  localVersionJson :: string
  remoteVersionJson :: string
  cCreatedAt :: int
  resolvedAt :: "int option"

record CursorRow =
  curScopeKey :: string
  curCollectionKey :: string
  curCursor :: string
  curUpdatedAt :: int

record ExampleItemRow =
  itemId :: string
  itemName :: string
  itemUpdatedAt :: int
  itemCreatedAt :: int

text \<open>
  The database: each table is the list of its rows in insertion order. The primary keys
  (\<open>opId\<close>, \<open>conflictId\<close>, the cursor's key pair, \<open>itemId\<close>) are kept unique by SQLite.
\<close>

record DB =
  outbox_ops :: "OutboxOp list"
  conflicts :: "Conflict list"
  sync_cursors :: "CursorRow list"
  example_items :: "ExampleItemRow list"

definition uniqueOpIds :: "DB \<Rightarrow> bool" where
  "uniqueOpIds db = distinct (map opId (outbox_ops db))"

section \<open>outbox.ts: the outbox queue\<close>

text \<open>
  Every function takes the database and returns the one it leaves. \<open>now\<close> is the reading of
  \<^verbatim>\<open>nowMs()\<close> and the identifiers are the values \<^verbatim>\<open>generateUUID()\<close> returned during the call.
\<close>

definition opTypeName :: "OutboxOpType \<Rightarrow> string" where
  "opTypeName ty = (case ty of OpUpsert \<Rightarrow> ''upsert'' | OpDelete \<Rightarrow> ''delete'' | OpCustom \<Rightarrow> ''custom'')"

definition enqueue ::
  "string \<Rightarrow> string \<Rightarrow> int \<Rightarrow> Scope \<Rightarrow> string \<Rightarrow> OutboxOpType \<Rightarrow> json \<Rightarrow> string option \<Rightarrow> DB
     \<Rightarrow> string \<times> DB" where
  "enqueue newId newKeyId now scope entityKey ty pl idemKey db =
     (let opIdNew = newId;
          generated = entityKey @ '':'' @ opTypeName ty @ '':'' @ newKeyId;
          idempotency = (case idemKey of Some k \<Rightarrow> if k \<noteq> [] then k else generated | None \<Rightarrow> generated);
          scopeKeyStr = scopeKey scope;
          row = \<lparr> opId = opIdNew, opScopeKey = scopeKeyStr, opEntityKey = entityKey, opType = ty,
                  idempotencyKey = idempotency, payload = pl, attemptCount = 0, state = Pending,
                  lastErrorJson = None, opCreatedAt = now, opUpdatedAt = now \<rparr>
      in (opIdNew, db\<lparr>outbox_ops := outbox_ops db @ [row]\<rparr>))"

definition resetStaleInFlight :: "Scope \<Rightarrow> int \<Rightarrow> int \<Rightarrow> DB \<Rightarrow> nat \<times> DB" where
  "resetStaleInFlight scope staleMs now db =
     (let scopeKeyStr = scopeKey scope;
          staleThreshold = now - staleMs;
          hit = (\<lambda>r. opScopeKey r = scopeKeyStr \<and> state r = InFlight \<and> opUpdatedAt r < staleThreshold)
      in (length (filter hit (outbox_ops db)),
          db\<lparr>outbox_ops :=
               map (\<lambda>r. if hit r then r\<lparr>state := Pending, opUpdatedAt := now\<rparr> else r) (outbox_ops db)\<rparr>))"

text \<open>
  \<^verbatim>\<open>ORDER BY created_at ASC LIMIT ?\<close>. SQL leaves the order of rows with equal \<open>created_at\<close>
  open; the sort used here keeps them in insertion order.
\<close>

definition getPending :: "Scope \<Rightarrow> int \<Rightarrow> DB \<Rightarrow> OutboxOp list" where
  "getPending scope limit db =
     (let scopeKeyStr = scopeKey scope
      in sqlLimit limit
           (sort_key opCreatedAt
              (filter (\<lambda>r. opScopeKey r = scopeKeyStr \<and> state r = Pending) (outbox_ops db))))"

definition claimByIds :: "string list \<Rightarrow> int \<Rightarrow> DB \<Rightarrow> DB" where
  "claimByIds opIds now db =
     (if opIds = [] then db
      else db\<lparr>outbox_ops :=
                map (\<lambda>r. if opId r \<in> set opIds \<and> state r = Pending
                          then r\<lparr>state := InFlight, opUpdatedAt := now\<rparr> else r)
                    (outbox_ops db)\<rparr>)"

definition getByIds :: "string list \<Rightarrow> DB \<Rightarrow> OutboxOp list" where
  "getByIds opIds db =
     (if opIds = [] then [] else filter (\<lambda>r. opId r \<in> set opIds) (outbox_ops db))"

definition claimPending :: "Scope \<Rightarrow> int \<Rightarrow> int \<Rightarrow> DB \<Rightarrow> OutboxOp list \<times> DB" where
  "claimPending scope limit now db =
     (let db1 = snd (resetStaleInFlight scope (5 * 60 * 1000) now db);
          pending = getPending scope limit db1;
          opIds = map opId pending;
          db2 = claimByIds opIds now db1
      in (getByIds opIds db2, db2))"

text \<open>The optional \<^verbatim>\<open>{ code, message }\<close> argument of \<^verbatim>\<open>updateState\<close>.\<close>

record OpError =
  code :: string
  message :: string

definition errorJson :: "OpError \<Rightarrow> json" where
  "errorJson e = JObj [(''code'', JStr (code e)), (''message'', JStr (message e))]"

definition updateState :: "string \<Rightarrow> OutboxOpState \<Rightarrow> OpError option \<Rightarrow> int \<Rightarrow> DB \<Rightarrow> DB" where
  "updateState i st err now db =
     db\<lparr>outbox_ops :=
          map (\<lambda>r. if opId r = i
                    then r\<lparr>state := st,
                           lastErrorJson := (case err of Some e \<Rightarrow> Some (safeJsonEncode (errorJson e)) | None \<Rightarrow> None),
                           opUpdatedAt := now\<rparr>
                    else r)
              (outbox_ops db)\<rparr>"

definition markForRetry :: "string \<Rightarrow> int \<Rightarrow> DB \<Rightarrow> DB" where
  "markForRetry i now db =
     db\<lparr>outbox_ops :=
          map (\<lambda>r. if opId r = i
                    then r\<lparr>state := Pending, attemptCount := attemptCount r + 1, opUpdatedAt := now\<rparr>
                    else r)
              (outbox_ops db)\<rparr>"

definition countPending :: "Scope \<Rightarrow> DB \<Rightarrow> nat" where
  "countPending scope db =
     (let scopeKeyStr = scopeKey scope
      in length (filter (\<lambda>r. opScopeKey r = scopeKeyStr \<and> state r = Pending) (outbox_ops db)))"

text \<open>The LIKE pattern built by the entity lookups: \<^verbatim>\<open>`%"id":"${entityId}"%`\<close>.\<close>

definition idPattern :: "string \<Rightarrow> string" where
  \<open>idPattern entityId = ''%"id":"'' @ entityId @ ''"%''\<close>

definition hasPendingOpsForEntity :: "Scope \<Rightarrow> string \<Rightarrow> string \<Rightarrow> DB \<Rightarrow> bool" where
  "hasPendingOpsForEntity scope entityKey entityId db =
     (let scopeKeyStr = scopeKey scope;
          count = length (filter (\<lambda>r. opScopeKey r = scopeKeyStr \<and> opEntityKey r = entityKey
                                      \<and> (state r = Pending \<or> state r = InFlight)
                                      \<and> sqlLike (idPattern entityId) (payloadJson r))
                                 (outbox_ops db))
      in count > 0)"

section \<open>conflicts: the conflict table\<close>

text \<open>
  \<^verbatim>\<open>createConflict\<close>: \<open>newId\<close> is the UUID generated at the start of the call. The whole
  body runs against one database value, inside or outside \<^verbatim>\<open>withTransaction\<close>. The result is
  the function's return value: the fresh \<open>conflictId\<close> in both branches (the \<^verbatim>\<open>return existing.id\<close>
  of the update branch only leaves the inner callback).
\<close>

definition createConflict ::
  "string \<Rightarrow> int \<Rightarrow> Scope \<Rightarrow> string \<Rightarrow> string \<Rightarrow> json \<Rightarrow> json \<Rightarrow> DB \<Rightarrow> string \<times> DB" where
  "createConflict newId now scope entityKey entityId localVersion remoteVersion db =
     (let sk = scopeKey scope;
          unresolved = (\<lambda>c. cScopeKey c = sk \<and> cEntityKey c = entityKey \<and> cEntityId c = entityId
                              \<and> resolvedAt c = None)
      in (case filter unresolved (conflicts db) of
            existing # _ \<Rightarrow>
              (newId,
               db\<lparr>conflicts :=
                    map (\<lambda>c. if conflictId c = conflictId existing
                              then c\<lparr>localVersionJson := safeJsonEncode localVersion,
                                     remoteVersionJson := safeJsonEncode remoteVersion,
                                     cCreatedAt := now\<rparr>
                              else c)
                        (conflicts db)\<rparr>)
          | [] \<Rightarrow>
              (newId,
               db\<lparr>conflicts := conflicts db @
                    [\<lparr> conflictId = newId, cScopeKey = sk, cEntityKey = entityKey, cEntityId = entityId,
                       localVersionJson = safeJsonEncode localVersion,
                       remoteVersionJson = safeJsonEncode remoteVersion,
                       cCreatedAt = now, resolvedAt = None \<rparr>]\<rparr>)))"

definition resolveConflict :: "string \<Rightarrow> int \<Rightarrow> DB \<Rightarrow> DB" where
  "resolveConflict i now db =
     db\<lparr>conflicts := map (\<lambda>c. if conflictId c = i then c\<lparr>resolvedAt := Some now\<rparr> else c) (conflicts db)\<rparr>"

definition getUnresolvedConflicts :: "Scope \<Rightarrow> DB \<Rightarrow> Conflict list" where
  "getUnresolvedConflicts scope db =
     (let sk = scopeKey scope
      in rev (sort_key cCreatedAt (filter (\<lambda>c. cScopeKey c = sk \<and> resolvedAt c = None) (conflicts db))))"

definition countUnresolvedConflicts :: "Scope \<Rightarrow> DB \<Rightarrow> nat" where
  "countUnresolvedConflicts scope db =
     (let sk = scopeKey scope
      in length (filter (\<lambda>c. cScopeKey c = sk \<and> resolvedAt c = None) (conflicts db)))"

definition hasConflict :: "Scope \<Rightarrow> string \<Rightarrow> string \<Rightarrow> DB \<Rightarrow> bool" where
  "hasConflict scope entityKey entityId db =
     (let sk = scopeKey scope;
          count = length (filter (\<lambda>c. cScopeKey c = sk \<and> cEntityKey c = entityKey \<and> cEntityId c = entityId
                                      \<and> resolvedAt c = None)
                                 (conflicts db))
      in count > 0)"

section \<open>adapters.ts: delta changes\<close>

datatype DeltaChange =
    Upsert (changeEntityKey: string) (changeEntityId: string) (changeData: json) (changeUpdatedAt: int)
  | Delete (changeEntityKey: string) (changeEntityId: string) (changeUpdatedAt: int)

record DeltaPullResponse =
  pageChanges :: "DeltaChange list"
  nextCursor :: string
  hasMore :: "bool option"

section \<open>The default conflict detector\<close>

definition shouldApplyChange :: "Scope \<Rightarrow> DeltaChange \<Rightarrow> DB \<Rightarrow> bool" where
  "shouldApplyChange scope change db =
     (case change of
        Delete _ _ _ \<Rightarrow> True
      | Upsert ek eid _ _ \<Rightarrow>
          (let hasPending = hasPendingOpsForEntity scope ek eid db in \<not> hasPending))"

definition exampleItemJson :: "ExampleItemRow \<Rightarrow> json" where
  "exampleItemJson row =
     JObj [(''id'', JStr (itemId row)), (''name'', JStr (itemName row)),
           (''updated_at'', JNum (itemUpdatedAt row)), (''created_at'', JNum (itemCreatedAt row))]"

text \<open>
  \<^verbatim>\<open>getLocalVersion\<close>: the newest matching outbox payload (this query has no scope filter),
  else the \<^verbatim>\<open>example_items\<close> row, else null. \<^verbatim>\<open>ORDER BY created_at DESC LIMIT 1\<close> is the
  last row of the ascending order.
\<close>

definition getLocalVersion :: "string \<Rightarrow> string \<Rightarrow> DB \<Rightarrow> json option" where
  "getLocalVersion entityKey entityId db =
     (let rows = sqlLimit 1 (rev (sort_key opCreatedAt
                   (filter (\<lambda>r. opEntityKey r = entityKey \<and> (state r = Pending \<or> state r = InFlight)
                                 \<and> sqlLike (idPattern entityId) (payloadJson r))
                           (outbox_ops db))))
      in (case rows of
            r # _ \<Rightarrow> Some (payload r)
          | [] \<Rightarrow>
              if entityKey = ''example_items''
              then (case filter (\<lambda>row. itemId row = entityId) (example_items db) of
                      row # _ \<Rightarrow> Some (exampleItemJson row)
                    | [] \<Rightarrow> None)
              else None))"

definition onConflictDetected :: "string \<Rightarrow> int \<Rightarrow> Scope \<Rightarrow> DeltaChange \<Rightarrow> DB \<Rightarrow> DB" where
  "onConflictDetected newId now scope change db =
     (case change of
        Delete _ _ _ \<Rightarrow> db
      | Upsert ek eid dat _ \<Rightarrow>
          (let conflictExists = hasConflict scope ek eid db
           in if conflictExists then db
              else (let localVersion = getLocalVersion ek eid db
                    in snd (createConflict newId now scope ek eid
                              (case localVersion of Some v \<Rightarrow> (if v = JNull then JObj [(''id'', JStr eid)] else v)
                                                  | None \<Rightarrow> JObj [(''id'', JStr eid)])
                              dat db))))"

section \<open>applyEngine.ts: applying delta changes\<close>

text \<open>
  An asynchronous call that may throw returns \<open>Inl\<close> of the error message or \<open>Inr\<close> of its
  value, together with the database it has left behind at that moment.
\<close>

type_synonym 'a io = "(string + 'a) \<times> DB"

record DeltaChangeHandler =
  applyUpsert :: "string \<Rightarrow> string \<Rightarrow> json \<Rightarrow> int \<Rightarrow> DB \<Rightarrow> unit io"
  applyDelete :: "string \<Rightarrow> string \<Rightarrow> int \<Rightarrow> DB \<Rightarrow> unit io"

text \<open>
  \<^verbatim>\<open>db.withTransactionAsync\<close>: the writes of a callback that throws are rolled back and
  the error is thrown on.
\<close>

definition withTransaction :: "(DB \<Rightarrow> 'a io) \<Rightarrow> DB \<Rightarrow> 'a io" where
  "withTransaction fn db = (case fn db of (Inr v, db') \<Rightarrow> (Inr v, db') | (Inl e, _) \<Rightarrow> (Inl e, db))"

definition applyChangeInternal :: "DeltaChange \<Rightarrow> DeltaChangeHandler \<Rightarrow> DB \<Rightarrow> unit io" where
  "applyChangeInternal change handler db =
     (case change of
        Upsert ek eid dat u \<Rightarrow> applyUpsert handler ek eid dat u db
      | Delete ek eid u \<Rightarrow> applyDelete handler ek eid u db)"

definition applyChange :: "DeltaChange \<Rightarrow> DeltaChangeHandler \<Rightarrow> DB \<Rightarrow> unit io" where
  "applyChange change handler db = withTransaction (applyChangeInternal change handler) db"

text \<open>
  The \<^verbatim>\<open>ConflictDetector\<close> interface. \<open>detOnConflictDetected\<close> also receives the UUID and the
  clock reading available to the call.
\<close>

record ConflictDetector =
  detShouldApplyChange :: "Scope \<Rightarrow> DeltaChange \<Rightarrow> DB \<Rightarrow> bool"
  detOnConflictDetected :: "string \<Rightarrow> int \<Rightarrow> Scope \<Rightarrow> DeltaChange \<Rightarrow> DB \<Rightarrow> DB"

definition DefaultConflictDetector :: ConflictDetector where
  "DefaultConflictDetector =
     \<lparr> detShouldApplyChange = shouldApplyChange, detOnConflictDetected = onConflictDetected \<rparr>"

record ApplyOptions =
  optScope :: "Scope option"
  optConflictDetector :: "ConflictDetector option"

record ApplyResult =
  resApplied :: nat
  resConflicts :: nat
  resErrors :: "(DeltaChange \<times> string) list"

definition isUpsert :: "DeltaChange \<Rightarrow> bool" where
  "isUpsert change = (case change of Upsert _ _ _ _ \<Rightarrow> True | Delete _ _ _ \<Rightarrow> False)"

text \<open>
  One turn of the \<^verbatim>\<open>for (const change of changes)\<close> loop of \<^verbatim>\<open>applyChanges\<close>, with its
  \<^verbatim>\<open>try/catch\<close>: a conflict is recorded and counted, otherwise the handler runs and either
  counts as applied or has its exception collected. \<open>newId\<close> is the UUID generated if
  \<open>createConflict\<close> is reached in this turn.
\<close>

definition applyOne ::
  "DeltaChangeHandler \<Rightarrow> ApplyOptions \<Rightarrow> string \<Rightarrow> int \<Rightarrow> DeltaChange \<Rightarrow> ApplyResult \<times> DB \<Rightarrow> ApplyResult \<times> DB" where
  "applyOne handler opts newId now change acc =
     (let res = fst acc; db = snd acc;
          conflict =
            (case optConflictDetector opts of
               None \<Rightarrow> None
             | Some det \<Rightarrow>
                 (case optScope opts of
                    None \<Rightarrow> None
                  | Some sc \<Rightarrow>
                      if isUpsert change \<and> \<not> detShouldApplyChange det sc change db
                      then Some (det, sc) else None))
      in (case conflict of
            Some (det, sc) \<Rightarrow>
              (res\<lparr>resConflicts := resConflicts res + 1\<rparr>, detOnConflictDetected det newId now sc change db)
          | None \<Rightarrow>
              (case applyChangeInternal change handler db of
                 (Inr _, db') \<Rightarrow> (res\<lparr>resApplied := resApplied res + 1\<rparr>, db')
               | (Inl e, db') \<Rightarrow> (res\<lparr>resErrors := resErrors res @ [(change, e)]\<rparr>, db'))))"

text \<open>The loop; \<open>uuid i\<close> is the UUID available to the \<open>i\<close>-th change of the batch.\<close>

fun applyLoop ::
  "DeltaChangeHandler \<Rightarrow> ApplyOptions \<Rightarrow> (nat \<Rightarrow> string) \<Rightarrow> int \<Rightarrow> nat \<Rightarrow> DeltaChange list
     \<Rightarrow> ApplyResult \<times> DB \<Rightarrow> ApplyResult \<times> DB" where
  "applyLoop handler opts uuid now i [] acc = acc"
| "applyLoop handler opts uuid now i (change # rest) acc =
     applyLoop handler opts uuid now (i + 1) rest (applyOne handler opts (uuid i) now change acc)"

text \<open>
  \<^verbatim>\<open>applyChanges\<close>: the loop runs inside one transaction; with any collected error the
  transaction throws and is rolled back, and the result reports \<^verbatim>\<open>applied: 0\<close> with the
  counters \<^verbatim>\<open>conflicts\<close> and \<^verbatim>\<open>errors\<close> as the loop left them.
\<close>

definition applyChanges ::
  "DeltaChangeHandler \<Rightarrow> ApplyOptions \<Rightarrow> (nat \<Rightarrow> string) \<Rightarrow> int \<Rightarrow> DeltaChange list \<Rightarrow> DB
     \<Rightarrow> ApplyResult \<times> DB" where
  "applyChanges handler opts uuid now chs db =
     (let start = \<lparr> resApplied = 0, resConflicts = 0, resErrors = [] \<rparr>;
          done = applyLoop handler opts uuid now 0 chs (start, db);
          res = fst done
      in if resErrors res \<noteq> []
         then (\<lparr> resApplied = 0, resConflicts = resConflicts res, resErrors = resErrors res \<rparr>, db)
         else done)"

text \<open>
  The \<open>i\<close>-th turn of the loop of \<open>applyChanges\<close> collects an error: the handler was applied to
  the \<open>i\<close>-th change of the batch and threw.
\<close>

definition handlerThrowsAt ::
  "DeltaChangeHandler \<Rightarrow> ApplyOptions \<Rightarrow> (nat \<Rightarrow> string) \<Rightarrow> int \<Rightarrow> DeltaChange list \<Rightarrow> DB \<Rightarrow> nat \<Rightarrow> bool" where
  "handlerThrowsAt handler opts uuid now chs db i =
     (i < length chs \<and>
      (let before = applyLoop handler opts uuid now 0 (take i chs)
                      (\<lparr> resApplied = 0, resConflicts = 0, resErrors = [] \<rparr>, db);
           after = applyOne handler opts (uuid i) now (chs ! i) before
       in length (resErrors (fst after)) > length (resErrors (fst before))))"

text \<open>
  The test that sends a change down the conflict path of \<open>applyOne\<close>: a detector and a scope
  are configured, the change is an upsert and the detector's \<open>shouldApplyChange\<close> answers
  false. \<open>conflictDetectedAt\<close> says that this happens in the \<open>i\<close>-th turn of the loop, at the
  database the turns before it have left inside the transaction.
\<close>

definition heldBack :: "ApplyOptions \<Rightarrow> DeltaChange \<Rightarrow> DB \<Rightarrow> bool" where
  "heldBack opts change db =
     (case optConflictDetector opts of
        None \<Rightarrow> False
      | Some det \<Rightarrow>
          (case optScope opts of
             None \<Rightarrow> False
           | Some sc \<Rightarrow> isUpsert change \<and> \<not> detShouldApplyChange det sc change db))"

definition conflictDetectedAt ::
  "DeltaChangeHandler \<Rightarrow> ApplyOptions \<Rightarrow> (nat \<Rightarrow> string) \<Rightarrow> int \<Rightarrow> DeltaChange list \<Rightarrow> DB \<Rightarrow> nat \<Rightarrow> bool" where
  "conflictDetectedAt handler opts uuid now chs db i =
     (i < length chs \<and>
      heldBack opts (chs ! i)
        (snd (applyLoop handler opts uuid now 0 (take i chs)
                (\<lparr> resApplied = 0, resConflicts = 0, resErrors = [] \<rparr>, db))))"

section \<open>The example handler\<close>

text \<open>
  Reading a property of \<^verbatim>\<open>data as Partial<ExampleItem>\<close>: an object gives the property's
  value, any other non-null value gives \<^verbatim>\<open>undefined\<close>.
\<close>

definition jsonField :: "json \<Rightarrow> string \<Rightarrow> json option" where
  "jsonField v k = (case v of JObj fs \<Rightarrow> map_of fs k | _ \<Rightarrow> None)"

text \<open>
  \<^verbatim>\<open>applyUpsert\<close>. Reading \<^verbatim>\<open>itemData.name\<close> of a null \<open>data\<close> throws a TypeError. The fields
  are read at the types \<^verbatim>\<open>Partial<ExampleItem>\<close> declares (\<open>name\<close> a string, the timestamps
  numbers); a field that is missing or null takes the default. \<^verbatim>\<open>INSERT OR REPLACE\<close> removes
  a row with the same id and appends the new one.
\<close>

definition exampleApplyUpsert :: "string \<Rightarrow> string \<Rightarrow> json \<Rightarrow> int \<Rightarrow> DB \<Rightarrow> unit io" where
  "exampleApplyUpsert ek eid dat upd db =
     (if ek \<noteq> ''example_items'' then (Inr (), db)
      else if dat = JNull then (Inl ''TypeError: Cannot read properties of null'', db)
      else
        (let name = (case jsonField dat ''name'' of Some (JStr s) \<Rightarrow> s | _ \<Rightarrow> ''Unnamed Item'');
             createdAt = (case jsonField dat ''createdAt'' of Some (JNum n) \<Rightarrow> n | _ \<Rightarrow> upd);
             finalUpdatedAt =
               (case jsonField dat ''updatedAt'' of
                  Some (JNum n) \<Rightarrow> if n \<noteq> 0 \<and> n > upd then n else upd
                | _ \<Rightarrow> upd)
         in (Inr (),
             db\<lparr>example_items :=
                  filter (\<lambda>r. itemId r \<noteq> eid) (example_items db)
                  @ [\<lparr> itemId = eid, itemName = name, itemUpdatedAt = finalUpdatedAt,
                        itemCreatedAt = createdAt \<rparr>]\<rparr>)))"

definition exampleApplyDelete :: "string \<Rightarrow> string \<Rightarrow> int \<Rightarrow> DB \<Rightarrow> unit io" where
  "exampleApplyDelete ek eid upd db =
     (if ek \<noteq> ''example_items'' then (Inr (), db)
      else (Inr (), db\<lparr>example_items := filter (\<lambda>r. itemId r \<noteq> eid) (example_items db)\<rparr>))"

definition ExampleDeltaHandler :: DeltaChangeHandler where
  "ExampleDeltaHandler = \<lparr> applyUpsert = exampleApplyUpsert, applyDelete = exampleApplyDelete \<rparr>"

section \<open>The delta runner and its cursors\<close>

definition DEFAULT_CURSOR :: string where
  "DEFAULT_CURSOR = ''0''"

definition getCursor :: "Scope \<Rightarrow> string \<Rightarrow> DB \<Rightarrow> string" where
  "getCursor scope ck db =
     (let sk = scopeKey scope
      in (case filter (\<lambda>r. curScopeKey r = sk \<and> curCollectionKey r = ck) (sync_cursors db) of
            r # _ \<Rightarrow> curCursor r
          | [] \<Rightarrow> DEFAULT_CURSOR))"

text \<open>\<^verbatim>\<open>INSERT ... ON CONFLICT(scope_key, collection_key) DO UPDATE\<close>.\<close>

definition setCursor :: "Scope \<Rightarrow> string \<Rightarrow> string \<Rightarrow> int \<Rightarrow> DB \<Rightarrow> DB" where
  "setCursor scope ck cur now db =
     (let sk = scopeKey scope;
          same = (\<lambda>r. curScopeKey r = sk \<and> curCollectionKey r = ck)
      in if list_ex same (sync_cursors db)
         then db\<lparr>sync_cursors :=
                   map (\<lambda>r. if same r then r\<lparr>curCursor := cur, curUpdatedAt := now\<rparr> else r) (sync_cursors db)\<rparr>
         else db\<lparr>sync_cursors := sync_cursors db @
                   [\<lparr> curScopeKey = sk, curCollectionKey = ck, curCursor = cur, curUpdatedAt = now \<rparr>]\<rparr>)"

text \<open>
  The runner's fields. The pull adapter is a function of the number of calls made before in
  this run (a stub adapter counts its calls), the scope, the collection and the cursor; it
  may throw.
\<close>

record DeltaRunner =
  pullChanges :: "nat \<Rightarrow> Scope \<Rightarrow> string \<Rightarrow> string \<Rightarrow> string + DeltaPullResponse"
  runnerHandler :: "DeltaChangeHandler option"
  maxPagesPerRun :: nat
  runnerConflictDetector :: "ConflictDetector option"

text \<open>The local variables of \<^verbatim>\<open>runDeltaPull\<close>.\<close>

record PullState =
  pagesPulled :: nat
  totalChanges :: nat
  totalApplied :: nat
  totalConflicts :: nat
  totalErrors :: nat
  currentCursor :: string
  hasMoreNow :: bool

datatype 'a loopStep = Break 'a | Continue 'a

text \<open>
  The body of the \<^verbatim>\<open>while\<close> loop: pull a page, apply it, stop without touching the cursor
  if the apply reported errors, otherwise store \<open>nextCursor\<close>. \<open>uuid p i\<close> is the UUID available
  to the \<open>i\<close>-th change of the \<open>p\<close>-th page.
\<close>

definition pullPage ::
  "DeltaRunner \<Rightarrow> (nat \<Rightarrow> nat \<Rightarrow> string) \<Rightarrow> int \<Rightarrow> Scope \<Rightarrow> string \<Rightarrow> PullState \<times> DB
     \<Rightarrow> string + (PullState \<times> DB) loopStep" where
  "pullPage runner uuid now scope ck sdb =
     (let st = fst sdb; db = snd sdb
      in (case pullChanges runner (pagesPulled st) scope ck (currentCursor st) of
            Inl e \<Rightarrow> Inl e
          | Inr response \<Rightarrow>
              (let st1 = st\<lparr>totalChanges := totalChanges st + length (pageChanges response),
                             pagesPulled := pagesPulled st + 1\<rparr>;
                   applied =
                     (case runnerHandler runner of
                        Some handler \<Rightarrow>
                          if pageChanges response \<noteq> []
                          then Some (applyChanges handler
                                       \<lparr> optScope = Some scope, optConflictDetector = runnerConflictDetector runner \<rparr>
                                       (uuid (pagesPulled st)) now (pageChanges response) db)
                          else None
                      | None \<Rightarrow> None);
                   st2 = (case applied of
                            Some (result, _) \<Rightarrow>
                              st1\<lparr>totalApplied := totalApplied st1 + resApplied result,
                                   totalConflicts := totalConflicts st1 + resConflicts result,
                                   totalErrors := totalErrors st1 + length (resErrors result)\<rparr>
                          | None \<Rightarrow> st1);
                   db1 = (case applied of Some (_, d) \<Rightarrow> d | None \<Rightarrow> db);
                   failed = (case applied of Some (result, _) \<Rightarrow> resErrors result \<noteq> [] | None \<Rightarrow> False)
               in if failed then Inr (Break (st2, db1))
                  else
                    (let db2 = setCursor scope ck (nextCursor response) now db1;
                         more = (case hasMore response of Some b \<Rightarrow> b | None \<Rightarrow> False);
                         st3 = st2\<lparr>currentCursor := nextCursor response, hasMoreNow := more\<rparr>
                     in if pageChanges response = [] \<and> \<not> more
                        then Inr (Break (st3, db2))
                        else Inr (Continue (st3, db2))))))"

lemma pullPage_pagesPulled:
  "pullPage runner uuid now scope ck sdb = Inr (Continue sdb') \<Longrightarrow>
     pagesPulled (fst sdb') = pagesPulled (fst sdb) + 1"
  by (auto simp: pullPage_def Let_def split: sum.splits option.splits if_splits prod.splits)

function pullLoop ::
  "DeltaRunner \<Rightarrow> (nat \<Rightarrow> nat \<Rightarrow> string) \<Rightarrow> int \<Rightarrow> Scope \<Rightarrow> string \<Rightarrow> PullState \<times> DB
     \<Rightarrow> (string + PullState) \<times> DB" where
  "pullLoop runner uuid now scope ck sdb =
     (if hasMoreNow (fst sdb) \<and> pagesPulled (fst sdb) < maxPagesPerRun runner
      then (case pullPage runner uuid now scope ck sdb of
              Inl e \<Rightarrow> (Inl e, snd sdb)
            | Inr (Break sdb') \<Rightarrow> (Inr (fst sdb'), snd sdb')
            | Inr (Continue sdb') \<Rightarrow> pullLoop runner uuid now scope ck sdb')
      else (Inr (fst sdb), snd sdb))"
  by pat_completeness auto
termination
  by (relation "measure (\<lambda>(runner, uuid, now, scope, ck, sdb). maxPagesPerRun runner - pagesPulled (fst sdb))")
     (auto dest!: pullPage_pagesPulled)

declare pullLoop.simps [simp del]

definition runDeltaPull ::
  "DeltaRunner \<Rightarrow> (nat \<Rightarrow> nat \<Rightarrow> string) \<Rightarrow> int \<Rightarrow> Scope \<Rightarrow> string \<Rightarrow> DB \<Rightarrow> (string + PullState) \<times> DB" where
  "runDeltaPull runner uuid now scope ck db =
     pullLoop runner uuid now scope ck
       (\<lparr> pagesPulled = 0, totalChanges = 0, totalApplied = 0, totalConflicts = 0, totalErrors = 0,
          currentCursor = getCursor scope ck db, hasMoreNow = True \<rparr>, db)"

section \<open>The outbox processor\<close>

record OutboxProcessorConfig =
  batchSize :: int
  maxAttempts :: int
  backoffMs :: int
  maxBackoffMs :: int

definition DEFAULT_CONFIG :: OutboxProcessorConfig where
  "DEFAULT_CONFIG = \<lparr> batchSize = 10, maxAttempts = 5, backoffMs = 1000, maxBackoffMs = 60000 \<rparr>"

text \<open>
  \<^verbatim>\<open>calculateBackoff\<close> computes in IEEE double arithmetic (\<^verbatim>\<open>Math.pow\<close>, \<^verbatim>\<open>Math.min\<close>,
  \<^verbatim>\<open>Math.max\<close>) from a \<^verbatim>\<open>Math.random()\<close> draw, and \<^verbatim>\<open>isBackoffElapsed\<close> compares its result
  with the time since the row's last update. Double arithmetic is not part of this
  development, so the comparison is taken as it comes out: \<open>elapsed i attempt baseMs maxMs t\<close>
  is the value of \<^verbatim>\<open>t >= calculateBackoff(attempt, baseMs, maxMs)\<close> in the test of the
  operation with id \<open>i\<close>.
\<close>

type_synonym BackoffTest = "string \<Rightarrow> nat \<Rightarrow> int \<Rightarrow> int \<Rightarrow> int \<Rightarrow> bool"

definition isBackoffElapsed :: "OutboxOp \<Rightarrow> OutboxProcessorConfig \<Rightarrow> int \<Rightarrow> BackoffTest \<Rightarrow> bool" where
  "isBackoffElapsed op cfg now elapsed =
     (if attemptCount op = 0 then True
      else (let timeSinceUpdate = now - opUpdatedAt op
            in elapsed (opId op) (attemptCount op - 1) (backoffMs cfg) (maxBackoffMs cfg) timeSinceUpdate))"

record OutboxOpPayload =
  plId :: string
  plEntityKey :: string
  plOpType :: string
  plPayload :: json
  plIdempotencyKey :: string

datatype OutboxPushResult =
    PushSucceeded string
  | PushFailed string bool OpError
  | PushBlocked string string

definition resultOpId :: "OutboxPushResult \<Rightarrow> string" where
  "resultOpId r = (case r of PushSucceeded i \<Rightarrow> i | PushFailed i _ _ \<Rightarrow> i | PushBlocked i _ \<Rightarrow> i)"

text \<open>The push adapter: it returns its results or throws.\<close>

type_synonym RemoteOutboxAdapter = "Scope \<Rightarrow> OutboxOpPayload list \<Rightarrow> string + OutboxPushResult list"

record OutboxProcessor =
  config :: OutboxProcessorConfig
  isProcessing :: bool
  processingScope :: "Scope option"

text \<open>\<^verbatim>\<open>xs.slice(0, n)\<close>: a negative \<open>n\<close> counts from the end.\<close>

definition jsSlice0 :: "int \<Rightarrow> 'a list \<Rightarrow> 'a list" where
  "jsSlice0 n xs = (if n \<ge> 0 then take (nat n) xs else take (length xs - nat (- n)) xs)"

definition toAdapterOp :: "OutboxOp \<Rightarrow> OutboxOpPayload" where
  "toAdapterOp op =
     \<lparr> plId = opId op, plEntityKey = opEntityKey op, plOpType = opTypeName (opType op),
       plPayload = payload op, plIdempotencyKey = idempotencyKey op \<rparr>"

text \<open>\<^verbatim>\<open>new Map(results.map((result) => [result.opId, result]))\<close>: a later entry replaces an earlier one.\<close>

definition resultsByIdMap :: "OutboxPushResult list \<Rightarrow> string \<Rightarrow> OutboxPushResult option" where
  "resultsByIdMap results = map_of (rev (map (\<lambda>r. (resultOpId r, r)) results))"

text \<open>
  The body of the loop over \<open>readyOps\<close> that reconciles one claimed operation with the
  adapter's answer. \<open>op\<close> is the row as read before the claim.
\<close>

definition reconcileOp ::
  "OutboxProcessorConfig \<Rightarrow> int \<Rightarrow> (string \<Rightarrow> OutboxPushResult option) \<Rightarrow> nat \<times> DB \<Rightarrow> OutboxOp \<Rightarrow> nat \<times> DB" where
  "reconcileOp cfg now resultsById acc op =
     (let processedCount = fst acc; db = snd acc
      in (case resultsById (opId op) of
            None \<Rightarrow>
              (processedCount,
               updateState (opId op) Pending
                 (Some \<lparr> code = ''missing_result'', message = ''Adapter did not return a result for this operation'' \<rparr>)
                 now (markForRetry (opId op) now db))
          | Some (PushSucceeded _) \<Rightarrow> (processedCount + 1, updateState (opId op) Succeeded None now db)
          | Some (PushFailed _ retryable err) \<Rightarrow>
              if retryable \<and> int (attemptCount op) + 1 < maxAttempts cfg
              then (processedCount, updateState (opId op) Pending (Some err) now (markForRetry (opId op) now db))
              else (processedCount, updateState (opId op) Failed (Some err) now db)
          | Some (PushBlocked _ reason) \<Rightarrow>
              (processedCount,
               updateState (opId op) Blocked (Some \<lparr> code = ''blocked'', message = reason \<rparr>) now db)))"

text \<open>
  The value a \<open>processBatch\<close> call returns (or the error it throws) and the calls it made
  to the push adapter.
\<close>

record BatchOutcome =
  returned :: "string + nat"
  adapterCalls :: "(Scope \<times> OutboxOpPayload list) list"

text \<open>
  \<open>processBatch\<close>. \<open>elapsed\<close> gives the outcome of the backoff comparison for each operation
  tested. The \<^verbatim>\<open>finally\<close> block clears the flags on every path that entered the \<^verbatim>\<open>try\<close>.
\<close>

definition processBatch ::
  "RemoteOutboxAdapter \<Rightarrow> BackoffTest \<Rightarrow> int \<Rightarrow> Scope \<Rightarrow> OutboxProcessor \<times> DB
     \<Rightarrow> BatchOutcome \<times> OutboxProcessor \<times> DB" where
  "processBatch adapter elapsed now scope pdb =
     (let proc = fst pdb; db = snd pdb
      in if isProcessing proc then (\<lparr> returned = Inr 0, adapterCalls = [] \<rparr>, proc, db)
         else
           (let cfg = config proc;
                finished = proc\<lparr>isProcessing := False, processingScope := None\<rparr>;
                db1 = snd (resetStaleInFlight scope (5 * 60 * 1000) now db);
                pendingOps = getPending scope (batchSize cfg * 5) db1
            in if pendingOps = [] then (\<lparr> returned = Inr 0, adapterCalls = [] \<rparr>, finished, db1)
               else
                 (let exhaustedOps = filter (\<lambda>op. int (attemptCount op) \<ge> maxAttempts cfg) pendingOps;
                      db2 = foldl (\<lambda>d op. updateState (opId op) Failed
                                     (Some \<lparr> code = ''max_attempts'', message = ''Max retry attempts reached'' \<rparr>)
                                     now d)
                                  db1 exhaustedOps;
                      retryCandidates = filter (\<lambda>op. int (attemptCount op) < maxAttempts cfg) pendingOps;
                      readyOps = jsSlice0 (batchSize cfg)
                                   (filter (\<lambda>op. isBackoffElapsed op cfg now elapsed) retryCandidates)
                  in if readyOps = [] then (\<lparr> returned = Inr 0, adapterCalls = [] \<rparr>, finished, db2)
                     else
                       (let db3 = claimByIds (map opId readyOps) now db2;
                            adapterOps = map toAdapterOp readyOps
                        in (case adapter scope adapterOps of
                              Inl e \<Rightarrow> (\<lparr> returned = Inl e, adapterCalls = [(scope, adapterOps)] \<rparr>, finished, db3)
                            | Inr results \<Rightarrow>
                                (let done = foldl (reconcileOp cfg now (resultsByIdMap results)) (0, db3) readyOps
                                 in (\<lparr> returned = Inr (fst done), adapterCalls = [(scope, adapterOps)] \<rparr>,
                                     finished, snd done)))))))"

text \<open>
  The values \<open>processBatch\<close> binds on its way, as functions of the database it starts from:
  \<open>pendingOps\<close>, \<open>exhaustedOps\<close> and \<open>readyOps\<close>.
\<close>

definition pendingOpsOf :: "OutboxProcessorConfig \<Rightarrow> int \<Rightarrow> Scope \<Rightarrow> DB \<Rightarrow> OutboxOp list" where
  "pendingOpsOf cfg now scope db =
     getPending scope (batchSize cfg * 5) (snd (resetStaleInFlight scope (5 * 60 * 1000) now db))"

definition exhaustedOpsOf :: "OutboxProcessorConfig \<Rightarrow> int \<Rightarrow> Scope \<Rightarrow> DB \<Rightarrow> OutboxOp list" where
  "exhaustedOpsOf cfg now scope db =
     filter (\<lambda>op. int (attemptCount op) \<ge> maxAttempts cfg) (pendingOpsOf cfg now scope db)"

definition readyOpsOf :: "OutboxProcessorConfig \<Rightarrow> BackoffTest \<Rightarrow> int \<Rightarrow> Scope \<Rightarrow> DB \<Rightarrow> OutboxOp list" where
  "readyOpsOf cfg elapsed now scope db =
     jsSlice0 (batchSize cfg)
       (filter (\<lambda>op. isBackoffElapsed op cfg now elapsed)
          (filter (\<lambda>op. int (attemptCount op) < maxAttempts cfg) (pendingOpsOf cfg now scope db)))"

definition terminal :: "OutboxOp \<Rightarrow> bool" where
  "terminal r = (state r = Succeeded \<or> state r = Failed)"

text \<open>
  The row that the \<^verbatim>\<open>result.status === 'failed'\<close> branch of \<open>processBatch\<close> leaves for a
  claimed operation: back to pending with one more attempt while the failure is retryable
  and attempts remain, failed otherwise.
\<close>

definition afterFailure :: "OutboxProcessorConfig \<Rightarrow> int \<Rightarrow> bool \<Rightarrow> OpError \<Rightarrow> OutboxOp \<Rightarrow> OutboxOp" where
  "afterFailure cfg now retryable err r =
     (if retryable \<and> int (attemptCount r) + 1 < maxAttempts cfg
      then r\<lparr>attemptCount := attemptCount r + 1, state := Pending,
             lastErrorJson := Some (safeJsonEncode (errorJson err)), opUpdatedAt := now\<rparr>
      else r\<lparr>state := Failed, lastErrorJson := Some (safeJsonEncode (errorJson err)), opUpdatedAt := now\<rparr>)"

section \<open>The entity an operation is for\<close>

text \<open>
  Follows the spec's words: an outbox operation is "for" the entity \<open>(scope, entityKey,
  entityId)\<close>. The table has no entity id column; the schema notes place the entity id in the
  payload (\<^verbatim>\<open>payload_json\<close>: "JSON; includes entity id + fields"), so the entity id of an
  operation is the string under the key \<open>id\<close> of its payload object.
\<close>

definition opEntityId :: "OutboxOp \<Rightarrow> string option" where
  "opEntityId op = (case jsonField (payload op) ''id'' of Some (JStr s) \<Rightarrow> Some s | _ \<Rightarrow> None)"

definition specPendingOpForEntity :: "Scope \<Rightarrow> string \<Rightarrow> string \<Rightarrow> DB \<Rightarrow> bool" where
  "specPendingOpForEntity scope ek eid db =
     list_ex (\<lambda>r. opScopeKey r = scopeKey scope \<and> opEntityKey r = ek
                   \<and> (state r = Pending \<or> state r = InFlight) \<and> opEntityId r = Some eid)
             (outbox_ops db)"

section \<open>Sample states\<close>

definition emptyDB :: DB where
  "emptyDB = \<lparr> outbox_ops = [], conflicts = [], sync_cursors = [], example_items = [] \<rparr>"

definition workspaceScope :: Scope where
  "workspaceScope = \<lparr> scopeType = ''workspace'', scopeId = Some ''w1'' \<rparr>"

text \<open>A local edit of item \<open>e1\<close> waits in the outbox.\<close>

definition dbLocalEdit :: DB where
  "dbLocalEdit =
     snd (enqueue ''op-1'' ''key-1'' 100 workspaceScope ''example_items'' OpUpsert
            (JObj [(''id'', JStr ''e1''), (''name'', JStr ''mine'')]) None emptyDB)"

definition remoteFirst :: DeltaChange where
  "remoteFirst = Upsert ''example_items'' ''e1'' (JObj [(''name'', JStr ''theirs'')]) 150"

definition remoteSecond :: DeltaChange where
  "remoteSecond = Upsert ''example_items'' ''e1'' (JObj [(''name'', JStr ''theirs again'')]) 250"

definition dbFirstDetection :: DB where
  "dbFirstDetection = onConflictDetected ''conflict-1'' 200 workspaceScope remoteFirst dbLocalEdit"

text \<open>A stored item, and a local edit of item \<open>2\<close> that names its parent item \<open>1\<close>.\<close>

definition dbOneItem :: DB where
  "dbOneItem = snd (applyChange remoteFirst ExampleDeltaHandler emptyDB)"

definition dbNestedId :: DB where
  "dbNestedId =
     snd (enqueue ''op-2'' ''key-2'' 100 workspaceScope ''example_items'' OpUpsert
            (JObj [(''id'', JStr ''2''), (''parent'', JObj [(''id'', JStr ''1'')])]) None emptyDB)"

text \<open>The behaviours \<^verbatim>\<open>'succeed'\<close> and \<^verbatim>\<open>'fail'\<close> of \<^verbatim>\<open>StubOutboxAdapter\<close>.\<close>

definition stubSucceed :: RemoteOutboxAdapter where
  "stubSucceed scope ops = Inr (map (\<lambda>op. PushSucceeded (plId op)) ops)"

definition stubFail :: RemoteOutboxAdapter where
  "stubFail scope ops =
     Inr (map (\<lambda>op. PushFailed (plId op) True
                       \<lparr> code = ''stub_error'', message = ''Stub adapter: simulated failure'' \<rparr>) ops)"

definition idleProcessor :: OutboxProcessor where
  "idleProcessor = \<lparr> config = DEFAULT_CONFIG, isProcessing = False, processingScope = None \<rparr>"

definition busyProcessor :: OutboxProcessor where
  "busyProcessor = \<lparr> config = DEFAULT_CONFIG, isProcessing = True, processingScope = Some workspaceScope \<rparr>"

text \<open>
  Three edits enqueued in the workspace scope at times 100, 200 and 300, after an edit in
  another scope.
\<close>

definition dbThreeOps :: DB where
  "dbThreeOps =
     snd (enqueue ''op-c'' ''key-c'' 300 workspaceScope ''example_items'' OpUpsert (JObj [(''id'', JStr ''e3'')]) None
       (snd (enqueue ''op-b'' ''key-b'' 200 workspaceScope ''example_items'' OpUpsert (JObj [(''id'', JStr ''e2'')]) None
         (snd (enqueue ''op-a'' ''key-a'' 100 workspaceScope ''example_items'' OpUpsert (JObj [(''id'', JStr ''e1'')]) None
           (snd (enqueue ''op-x'' ''key-x'' 50 \<lparr> scopeType = ''global'', scopeId = None \<rparr> ''example_items'' OpDelete
                   (JObj [(''id'', JStr ''e0'')]) None emptyDB)))))))"

definition opA :: OutboxOp where
  "opA = outbox_ops dbThreeOps ! 1"

definition opB :: OutboxOp where
  "opB = outbox_ops dbThreeOps ! 2"

definition opC :: OutboxOp where
  "opC = outbox_ops dbThreeOps ! 3"

text \<open>
  A handler that stores example items but rejects an upsert without a name, and a pull
  adapter in the manner of the \<^verbatim>\<open>'paginated'\<close> stub: a first page with one good change and
  more to come, a second page whose last change the handler rejects.
\<close>

definition strictApplyUpsert :: "string \<Rightarrow> string \<Rightarrow> json \<Rightarrow> int \<Rightarrow> DB \<Rightarrow> unit io" where
  "strictApplyUpsert ek eid dat upd db =
     (case jsonField dat ''name'' of
        Some (JStr s) \<Rightarrow> exampleApplyUpsert ek eid dat upd db
      | _ \<Rightarrow> (Inl ''name is required'', db))"

definition strictHandler :: DeltaChangeHandler where
  "strictHandler = \<lparr> applyUpsert = strictApplyUpsert, applyDelete = exampleApplyDelete \<rparr>"

definition namelessChange :: DeltaChange where
  "namelessChange = Upsert ''example_items'' ''e7'' (JObj [(''color'', JStr ''red'')]) 170"

definition pageOne :: DeltaPullResponse where
  "pageOne =
     \<lparr> pageChanges = [Upsert ''example_items'' ''e5'' (JObj [(''name'', JStr ''five'')]) 150],
       nextCursor = ''cursor-1'', hasMore = Some True \<rparr>"

definition pageTwo :: DeltaPullResponse where
  "pageTwo =
     \<lparr> pageChanges = [Upsert ''example_items'' ''e6'' (JObj [(''name'', JStr ''six'')]) 160, namelessChange],
       nextCursor = ''cursor-2'', hasMore = Some False \<rparr>"

definition pagedAdapter :: "nat \<Rightarrow> Scope \<Rightarrow> string \<Rightarrow> string \<Rightarrow> string + DeltaPullResponse" where
  "pagedAdapter calls scope ck cur = (if cur = ''0'' then Inr pageOne else Inr pageTwo)"

definition strictRunner :: DeltaRunner where
  "strictRunner =
     \<lparr> pullChanges = pagedAdapter, runnerHandler = Some strictHandler, maxPagesPerRun = 10,
       runnerConflictDetector = Some DefaultConflictDetector \<rparr>"

definition sampleUuid :: "nat \<Rightarrow> nat \<Rightarrow> string" where
  "sampleUuid p i = ''uuid-'' @ showNat p @ ''-'' @ showNat i"

definition afterPageOne :: "PullState \<times> DB" where
  "afterPageOne =
     (\<lparr> pagesPulled = 1, totalChanges = 1, totalApplied = 1, totalConflicts = 0, totalErrors = 0,
        currentCursor = ''cursor-1'', hasMoreNow = True \<rparr>,
      setCursor workspaceScope ''example_items'' ''cursor-1'' 500
        (snd (applyChanges strictHandler
                \<lparr> optScope = Some workspaceScope, optConflictDetector = Some DefaultConflictDetector \<rparr>
                (sampleUuid 0) 500 (pageChanges pageOne) emptyDB)))"

text \<open>
  A backoff comparison for rounds that lie 100 seconds apart. With the default configuration
  (base 1000 ms, maximum 60000 ms, jitter of a fifth) the delay stays below 100 seconds, so
  the comparison is true once 100 seconds have passed; for a shorter time this sample
  answers false.
\<close>

definition lateEnough :: BackoffTest where
  "lateEnough i attempt baseMs maxMs timeSinceUpdate = (timeSinceUpdate \<ge> 100000)"

text \<open>
  An outbox with one operation already pushed and one waiting, and the rounds of a push
  adapter that keeps failing (default configuration, five attempts).
\<close>

definition dbTwoOps :: DB where
  "dbTwoOps =
     snd (enqueue ''op-1'' ''key-1'' 100 workspaceScope ''example_items'' OpUpsert
            (JObj [(''id'', JStr ''e1''), (''name'', JStr ''mine'')]) None
       (snd (snd (processBatch stubSucceed lateEnough 60 workspaceScope
          (idleProcessor,
           snd (enqueue ''op-0'' ''key-0'' 50 workspaceScope ''example_items'' OpUpsert
                  (JObj [(''id'', JStr ''e0'')]) None emptyDB))))))"

definition failRound :: "int \<Rightarrow> DB \<Rightarrow> DB" where
  "failRound now db = snd (snd (processBatch stubFail lateEnough now workspaceScope (idleProcessor, db)))"

definition dbFourFailures :: DB where
  "dbFourFailures = failRound 400000 (failRound 300000 (failRound 200000 (failRound 100000 dbTwoOps)))"

definition dbFiveFailures :: DB where
  "dbFiveFailures = failRound 500000 dbFourFailures"

text \<open>
  A batch for the database with the local edit of \<open>e1\<close>: a remote upsert of \<open>e1\<close>, a change
  the strict handler rejects, and a second remote upsert of \<open>e1\<close>.
\<close>

definition lateConflictBatch :: "DeltaChange list" where
  "lateConflictBatch = [remoteFirst, namelessChange, remoteSecond]"

definition defaultOptions :: ApplyOptions where
  "defaultOptions = \<lparr> optScope = Some workspaceScope, optConflictDetector = Some DefaultConflictDetector \<rparr>"

section \<open>Properties\<close>

subsection \<open>Scope keys\<close>

text \<open>
  C10. \<open>scopeKey\<close> is not injective. The scope of type \<open>a:b\<close> without id and the scope of type
  \<open>a\<close> with id \<open>b\<close> have the same key, and so have the global scope and a scope of type
  \<open>global\<close> with an id. Distinct scopes with one key share their rows: an operation enqueued
  under the first is counted as pending under the second, a cursor stored under the first
  is read under the second, and a conflict recorded under the first exists under the second.
\<close>

theorem scopeKey_not_injective:
  "scopeKey \<lparr> scopeType = ''a:b'', scopeId = None \<rparr> = scopeKey \<lparr> scopeType = ''a'', scopeId = Some ''b'' \<rparr>
   \<and> \<lparr> scopeType = ''a:b'', scopeId = None \<rparr> \<noteq> \<lparr> scopeType = ''a'', scopeId = Some ''b'' \<rparr>
   \<and> scopeKey \<lparr> scopeType = ''global'', scopeId = None \<rparr> = scopeKey \<lparr> scopeType = ''global'', scopeId = Some ''x'' \<rparr>
   \<and> \<lparr> scopeType = ''global'', scopeId = None \<rparr> \<noteq> \<lparr> scopeType = ''global'', scopeId = Some ''x'' \<rparr>
   \<and> \<not> inj scopeKey
   \<and> countPending \<lparr> scopeType = ''a'', scopeId = Some ''b'' \<rparr>
         (snd (enqueue ''op-1'' ''key-1'' 100 \<lparr> scopeType = ''a:b'', scopeId = None \<rparr> ''items'' OpUpsert
                 (JObj [(''id'', JStr ''x1'')]) None emptyDB)) = 1
   \<and> getCursor \<lparr> scopeType = ''a'', scopeId = Some ''b'' \<rparr> ''items''
         (setCursor \<lparr> scopeType = ''a:b'', scopeId = None \<rparr> ''items'' ''cursor-9'' 100 emptyDB) = ''cursor-9''
   \<and> hasConflict \<lparr> scopeType = ''a'', scopeId = Some ''b'' \<rparr> ''items'' ''x1''
         (snd (createConflict ''conflict-1'' 100 \<lparr> scopeType = ''a:b'', scopeId = None \<rparr> ''items'' ''x1''
                 (JObj [(''id'', JStr ''x1'')]) (JObj [(''id'', JStr ''x1'')]) emptyDB))"
proof -
  have k: "scopeKey \<lparr> scopeType = ''a:b'', scopeId = None \<rparr> = scopeKey \<lparr> scopeType = ''a'', scopeId = Some ''b'' \<rparr>"
    by (simp add: scopeKey_def)
  have d: "\<lparr> scopeType = ''a:b'', scopeId = None \<rparr> \<noteq> \<lparr> scopeType = ''a'', scopeId = Some ''b'' \<rparr>"
    by simp
  have ninj: "\<not> inj scopeKey"
    using k d by (auto simp: inj_def)
  have g: "scopeKey \<lparr> scopeType = ''global'', scopeId = None \<rparr> = scopeKey \<lparr> scopeType = ''global'', scopeId = Some ''x'' \<rparr>"
    by (simp add: scopeKey_def)
  have c: "countPending \<lparr> scopeType = ''a'', scopeId = Some ''b'' \<rparr>
         (snd (enqueue ''op-1'' ''key-1'' 100 \<lparr> scopeType = ''a:b'', scopeId = None \<rparr> ''items'' OpUpsert
                 (JObj [(''id'', JStr ''x1'')]) None emptyDB)) = 1"
    by code_simp
  have cur: "getCursor \<lparr> scopeType = ''a'', scopeId = Some ''b'' \<rparr> ''items''
         (setCursor \<lparr> scopeType = ''a:b'', scopeId = None \<rparr> ''items'' ''cursor-9'' 100 emptyDB) = ''cursor-9''"
    by code_simp
  have con: "hasConflict \<lparr> scopeType = ''a'', scopeId = Some ''b'' \<rparr> ''items'' ''x1''
         (snd (createConflict ''conflict-1'' 100 \<lparr> scopeType = ''a:b'', scopeId = None \<rparr> ''items'' ''x1''
                 (JObj [(''id'', JStr ''x1'')]) (JObj [(''id'', JStr ''x1'')]) emptyDB))"
    by code_simp
  show ?thesis using k d g ninj c cur con by simp
qed

subsection \<open>Conflict records\<close>

text \<open>
  C1 (as the code has it). When an unresolved conflict row exists for the scope key, entity
  key and entity id of an upsert, \<open>onConflictDetected\<close> returns before \<open>createConflict\<close> is
  reached: the database is left as it was. The one unresolved row stays the only one and
  keeps the versions and the timestamp of the first detection.
\<close>

theorem onConflictDetected_existing_unchanged:
  assumes "hasConflict scope ek eid db"
  shows "onConflictDetected newId now scope (Upsert ek eid dat u) db = db"
  using assms by (simp add: onConflictDetected_def)

theorem onConflictDetected_existing_unchanged_witness:
  "hasConflict workspaceScope ''example_items'' ''e1'' dbFirstDetection
   \<and> onConflictDetected ''conflict-2'' 300 workspaceScope remoteSecond dbFirstDetection = dbFirstDetection"
proof -
  have h: "hasConflict workspaceScope ''example_items'' ''e1'' dbFirstDetection"
    by code_simp
  show ?thesis
    using h onConflictDetected_existing_unchanged [OF h, of "''conflict-2''" 300 "JObj [(''name'', JStr ''theirs again'')]" 250]
    by (simp add: remoteSecond_def)
qed

text \<open>
  C1 as stated fails: after a second detection with new remote data at a later time the
  unresolved row still carries the remote version and the timestamp of the first detection.
\<close>

theorem onConflictDetected_second_detection_counterexample:
  "hasConflict workspaceScope ''example_items'' ''e1'' dbFirstDetection
   \<and> map remoteVersionJson (getUnresolvedConflicts workspaceScope
         (onConflictDetected ''conflict-2'' 300 workspaceScope remoteSecond dbFirstDetection))
       = [safeJsonEncode (changeData remoteFirst)]
   \<and> safeJsonEncode (changeData remoteFirst) \<noteq> safeJsonEncode (changeData remoteSecond)
   \<and> map cCreatedAt (getUnresolvedConflicts workspaceScope
         (onConflictDetected ''conflict-2'' 300 workspaceScope remoteSecond dbFirstDetection))
       = [200]"
  by code_simp

subsection \<open>The example handler\<close>

text \<open>
  C7. Applying a change a second time through the example handler leaves the database the
  first application produced, from any starting database and so from the empty store; a
  delete of an id that has no row changes nothing.
\<close>

theorem example_handler_idempotent:
  "snd (applyChange C ExampleDeltaHandler (snd (applyChange C ExampleDeltaHandler db)))
     = snd (applyChange C ExampleDeltaHandler db)
   \<and> example_items (snd (applyChange C ExampleDeltaHandler (snd (applyChange C ExampleDeltaHandler emptyDB))))
     = example_items (snd (applyChange C ExampleDeltaHandler emptyDB))
   \<and> ((\<forall>r \<in> set (example_items db). itemId r \<noteq> eid)
        \<longrightarrow> applyChange (Delete ek eid u) ExampleDeltaHandler db = (Inr (), db))"
proof -
  have idem: "snd (applyChange C ExampleDeltaHandler (snd (applyChange C ExampleDeltaHandler d)))
     = snd (applyChange C ExampleDeltaHandler d)" for d
    by (cases C)
       (simp_all add: applyChange_def withTransaction_def applyChangeInternal_def ExampleDeltaHandler_def
          exampleApplyUpsert_def exampleApplyDelete_def Let_def)
  have del: "(\<forall>r \<in> set (example_items db). itemId r \<noteq> eid)
        \<longrightarrow> applyChange (Delete ek eid u) ExampleDeltaHandler db = (Inr (), db)"
    by (auto simp: applyChange_def withTransaction_def applyChangeInternal_def ExampleDeltaHandler_def
          exampleApplyDelete_def filter_id_conv)
  show ?thesis using idem [of db] idem [of emptyDB] del by simp
qed

theorem example_handler_idempotent_witness:
  "map itemId (example_items dbOneItem) = [''e1'']
   \<and> applyChange (Delete ''example_items'' ''e9'' 400) ExampleDeltaHandler dbOneItem = (Inr (), dbOneItem)
   \<and> snd (applyChange remoteFirst ExampleDeltaHandler dbOneItem) = dbOneItem
   \<and> example_items dbOneItem
       = [\<lparr> itemId = ''e1'', itemName = ''theirs'', itemUpdatedAt = 150, itemCreatedAt = 150 \<rparr>]"
proof -
  have h: "\<forall>r \<in> set (example_items dbOneItem). itemId r \<noteq> ''e9''"
    by code_simp
  have v: "example_items dbOneItem
       = [\<lparr> itemId = ''e1'', itemName = ''theirs'', itemUpdatedAt = 150, itemCreatedAt = 150 \<rparr>]"
    by code_simp
  have w: "map itemId (example_items dbOneItem) = [''e1'']"
    by code_simp
  show ?thesis
    using h v w example_handler_idempotent [of remoteFirst emptyDB "''e9''" "''example_items''" 400]
          example_handler_idempotent [of remoteFirst dbOneItem "''e9''" "''example_items''" 400]
    by (simp add: dbOneItem_def)
qed

subsection \<open>Backoff\<close>

text \<open>
  An operation that has not been attempted yet is ready whatever the backoff comparison
  would yield: \<^verbatim>\<open>isBackoffElapsed\<close> returns before any arithmetic.
\<close>

lemma isBackoffElapsed_first_attempt:
  "attemptCount op = 0 \<Longrightarrow> isBackoffElapsed op cfg now elapsed"
  by (simp add: isBackoffElapsed_def)

subsection \<open>The reentrancy guard\<close>

text \<open>
  C8. While the processor's \<open>isProcessing\<close> flag is set, a \<open>processBatch\<close> call returns 0, makes
  no call to the push adapter and leaves the database and the processor as they were.
\<close>

theorem processBatch_reentrancy_guard:
  assumes "isProcessing proc"
  shows "processBatch adapter elapsed now scope (proc, db) = (\<lparr> returned = Inr 0, adapterCalls = [] \<rparr>, proc, db)"
  using assms by (simp add: processBatch_def)

theorem processBatch_reentrancy_guard_witness:
  "isProcessing busyProcessor
   \<and> processBatch stubSucceed lateEnough 500 workspaceScope (busyProcessor, dbLocalEdit)
       = (\<lparr> returned = Inr 0, adapterCalls = [] \<rparr>, busyProcessor, dbLocalEdit)"
proof -
  have h: "isProcessing busyProcessor" by (simp add: busyProcessor_def)
  show ?thesis
    using h processBatch_reentrancy_guard [OF h, of stubSucceed lateEnough 500 workspaceScope dbLocalEdit]
    by simp
qed

subsection \<open>Pending operations of an entity\<close>

text \<open>
  C3, at an input where the code departs from it. The outbox holds one pending operation,
  for item \<open>2\<close>, whose payload names item \<open>1\<close> as its parent. No pending or in-flight operation
  is for item \<open>1\<close>, yet the LIKE test finds the text \<^verbatim>\<open>"id":"1"\<close> inside the payload and
  \<open>shouldApplyChange\<close> returns false for a remote upsert of item \<open>1\<close>.
\<close>

theorem shouldApplyChange_nested_id_false_positive:
  \<open>payloadJson (hd (outbox_ops dbNestedId)) = ''{"id":"2","parent":{"id":"1"}}''
   \<and> map opEntityId (outbox_ops dbNestedId) = [Some ''2'']
   \<and> \<not> specPendingOpForEntity workspaceScope ''example_items'' ''1'' dbNestedId
   \<and> shouldApplyChange workspaceScope (Upsert ''example_items'' ''1'' (JObj [(''name'', JStr ''remote'')]) 150)
        dbNestedId = False\<close>
  by code_simp

subsection \<open>Claiming in creation order\<close>

lemma sort_key_three:
  fixes f :: "'a \<Rightarrow> int"
  assumes d: "distinct xs" and s: "set xs = {a, b, c}" and ab: "f a < f b" and bc: "f b < f c"
  shows "sort_key f xs = [a, b, c]"
proof -
  let ?s = "sort_key f xs"
  have inj: "inj_on f {a, b, c}" using ab bc by (auto simp: inj_on_def)
  have set_s: "set ?s = {a, b, c}" using s by simp
  have "sorted (map f ?s)" by (rule sorted_sort_key)
  moreover have "distinct (map f ?s)" using d inj set_s by (simp add: distinct_map)
  moreover have "sorted (map f [a, b, c])" using ab bc by simp
  moreover have "distinct (map f [a, b, c])" using ab bc by auto
  moreover have "set (map f ?s) = set (map f [a, b, c])" using set_s by simp
  ultimately have "map f ?s = map f [a, b, c]" by (rule sorted_distinct_set_unique)
  moreover have "inj_on f (set ?s \<union> set [a, b, c])" using inj set_s by simp
  ultimately show ?thesis by (rule map_inj_on)
qed

lemma filter_eq_single:
  "distinct xs \<Longrightarrow> x \<in> set xs \<Longrightarrow> filter (\<lambda>r. r = x) xs = [x]"
proof (induction xs)
  case Nil
  then show ?case by simp
next
  case (Cons y ys)
  show ?case
  proof (cases "y = x")
    case True
    then have "x \<notin> set ys" using Cons.prems by simp
    then have "filter (\<lambda>r. r = x) ys = []" by (auto simp: filter_empty_conv)
    then show ?thesis using True by simp
  next
    case False
    then show ?thesis using Cons by simp
  qed
qed

lemma same_id_same_row:
  assumes "distinct (map opId rows)" and "r \<in> set rows" and "r' \<in> set rows" and "opId r = opId r'"
  shows "r = r'"
  using assms by (auto simp: distinct_map dest: inj_onD)

text \<open>
  C6. The rows of one scope are three pending operations created at times
  \<open>t1 < t2 < t3\<close> (wherever they stand in the table, whatever other scopes hold). Then
  \<open>claimPending scope 2\<close> selects the first two in creation order, returns exactly these two
  rows, now in flight, and leaves the third as the scope's only pending row.
\<close>

theorem claimPending_fifo:
  assumes uniq: "uniqueOpIds db"
    and rows: "set (filter (\<lambda>r. opScopeKey r = scopeKey scope) (outbox_ops db)) = {op1, op2, op3}"
    and pend: "state op1 = Pending" "state op2 = Pending" "state op3 = Pending"
    and t12: "opCreatedAt op1 < opCreatedAt op2" and t23: "opCreatedAt op2 < opCreatedAt op3"
  shows "set (fst (claimPending scope 2 now db))
           = {op1\<lparr>state := InFlight, opUpdatedAt := now\<rparr>, op2\<lparr>state := InFlight, opUpdatedAt := now\<rparr>}
         \<and> length (fst (claimPending scope 2 now db)) = 2
         \<and> getPending scope 2 db = [op1, op2]
         \<and> filter (\<lambda>r. opScopeKey r = scopeKey scope \<and> state r = Pending)
              (outbox_ops (snd (claimPending scope 2 now db))) = [op3]"
proof -
  let ?sk = "scopeKey scope"
  let ?rows = "outbox_ops db"
  let ?claim = "\<lambda>r. r\<lparr>state := InFlight, opUpdatedAt := now\<rparr>"
  have dist_ids: "distinct (map opId ?rows)" using uniq by (simp add: uniqueOpIds_def)
  then have dist: "distinct ?rows" by (simp add: distinct_map)
  have mem: "op1 \<in> set ?rows" "op2 \<in> set ?rows" "op3 \<in> set ?rows"
    and sks: "opScopeKey op1 = ?sk" "opScopeKey op2 = ?sk" "opScopeKey op3 = ?sk"
    using rows by auto
  have in_scope: "r \<in> set ?rows \<Longrightarrow> opScopeKey r = ?sk \<Longrightarrow> r = op1 \<or> r = op2 \<or> r = op3" for r
    using rows by auto
  have all_pending: "r \<in> set ?rows \<Longrightarrow> opScopeKey r = ?sk \<Longrightarrow> state r = Pending" for r
    using in_scope pend by blast
  have ne: "op1 \<noteq> op2" "op2 \<noteq> op3" "op1 \<noteq> op3" using t12 t23 by auto
  have ids: "opId op1 \<noteq> opId op2" "opId op2 \<noteq> opId op3" "opId op1 \<noteq> opId op3"
    using same_id_same_row [OF dist_ids] mem ne by blast+
  \<comment> \<open>nothing in this scope is in flight, so no lease is reclaimed\<close>
  have reset: "snd (resetStaleInFlight scope (5 * 60 * 1000) now db) = db"
  proof -
    have "map (\<lambda>r. if opScopeKey r = ?sk \<and> state r = InFlight \<and> opUpdatedAt r < now - 5 * 60 * 1000
                     then r\<lparr>state := Pending, opUpdatedAt := now\<rparr> else r) ?rows = ?rows"
      using all_pending by (intro map_idI) auto
    then show ?thesis by (simp add: resetStaleInFlight_def Let_def)
  qed
  have filt: "filter (\<lambda>r. opScopeKey r = ?sk \<and> state r = Pending) ?rows
                = filter (\<lambda>r. opScopeKey r = ?sk) ?rows"
    using all_pending by (intro filter_cong) auto
  have sorted3: "sort_key opCreatedAt (filter (\<lambda>r. opScopeKey r = ?sk) ?rows) = [op1, op2, op3]"
    using dist rows t12 t23 by (intro sort_key_three) simp_all
  have pending: "getPending scope 2 db = [op1, op2]"
    by (simp add: getPending_def Let_def filt sorted3 sqlLimit_def)
  define claim where "claim = (\<lambda>r::OutboxOp. r\<lparr>state := InFlight, opUpdatedAt := now\<rparr>)"
  define chosen where "chosen = (\<lambda>r::OutboxOp. opId r \<in> set [opId op1, opId op2])"
  define upd where "upd = (\<lambda>r::OutboxOp. if chosen r \<and> state r = Pending then claim r else r)"
  have upd_id: "opId (upd r) = opId r" for r by (simp add: upd_def claim_def)
  have chosen_upd: "chosen (upd r) = chosen r" for r by (simp add: chosen_def upd_id)
  have db2: "claimByIds [opId op1, opId op2] now db = db\<lparr>outbox_ops := map upd ?rows\<rparr>"
    by (simp add: claimByIds_def upd_def chosen_def claim_def)
  have cp: "claimPending scope 2 now db = (filter chosen (map upd ?rows), db\<lparr>outbox_ops := map upd ?rows\<rparr>)"
    using reset pending db2 by (simp add: claimPending_def Let_def getByIds_def chosen_def)
  have chosen_rows: "r \<in> set ?rows \<Longrightarrow> chosen r \<longleftrightarrow> r = op1 \<or> r = op2" for r
    using same_id_same_row [OF dist_ids] mem by (auto simp: chosen_def)
  have sel: "filter chosen (map upd ?rows) = map claim (filter chosen ?rows)"
  proof -
    have "filter chosen (map upd ?rows) = map upd (filter chosen ?rows)"
      by (simp add: filter_map comp_def chosen_upd)
    also have "\<dots> = map claim (filter chosen ?rows)"
    proof (rule map_cong [OF refl])
      fix r assume "r \<in> set (filter chosen ?rows)"
      then have "r = op1 \<or> r = op2" "chosen r" using chosen_rows by auto
      then show "upd r = claim r" using pend by (auto simp: upd_def)
    qed
    finally show ?thesis .
  qed
  have set_sel: "set (filter chosen ?rows) = {op1, op2}"
    using chosen_rows mem by auto
  have "distinct (filter chosen ?rows)" using dist by simp
  then have "card (set (filter chosen ?rows)) = length (filter chosen ?rows)" by (rule distinct_card)
  then have "card {op1, op2} = length (filter chosen ?rows)" unfolding set_sel .
  then have len_sel: "length (filter chosen ?rows) = 2"
    using ne(1) by simp
  have res_set: "set (fst (claimPending scope 2 now db)) = {claim op1, claim op2}"
    unfolding cp fst_conv sel set_map set_sel by simp
  have res_len: "length (fst (claimPending scope 2 now db)) = 2"
    unfolding cp fst_conv sel length_map len_sel ..
  have left: "filter (\<lambda>r. opScopeKey r = ?sk \<and> state r = Pending) (map upd ?rows) = [op3]"
  proof -
    have keep: "r \<in> set ?rows \<Longrightarrow>
           (opScopeKey (upd r) = ?sk \<and> state (upd r) = Pending) \<longleftrightarrow> r = op3" for r
      using in_scope [of r] chosen_rows [of r] pend sks ne
      by (auto simp: upd_def claim_def)
    have "filter (\<lambda>r. opScopeKey r = ?sk \<and> state r = Pending) (map upd ?rows)
            = map upd (filter (\<lambda>r. r = op3) ?rows)"
      using keep by (simp add: filter_map comp_def cong: filter_cong)
    also have "filter (\<lambda>r. r = op3) ?rows = [op3]"
      using dist mem(3) by (rule filter_eq_single)
    also have "map upd [op3] = [op3]"
      using chosen_rows [OF mem(3)] ne by (simp add: upd_def)
    finally show ?thesis .
  qed
  show ?thesis
    using res_set res_len pending left by (simp add: cp claim_def)
qed

theorem claimPending_fifo_witness:
  "uniqueOpIds dbThreeOps
   \<and> set (filter (\<lambda>r. opScopeKey r = scopeKey workspaceScope) (outbox_ops dbThreeOps)) = {opA, opB, opC}
   \<and> map state [opA, opB, opC] = [Pending, Pending, Pending]
   \<and> map opCreatedAt [opA, opB, opC] = [100, 200, 300]
   \<and> set (fst (claimPending workspaceScope 2 1000 dbThreeOps))
        = {opA\<lparr>state := InFlight, opUpdatedAt := 1000\<rparr>, opB\<lparr>state := InFlight, opUpdatedAt := 1000\<rparr>}
   \<and> map opId (fst (claimPending workspaceScope 2 1000 dbThreeOps)) = [''op-a'', ''op-b'']
   \<and> getPending workspaceScope 2 dbThreeOps = [opA, opB]"
proof -
  have u: "uniqueOpIds dbThreeOps" by code_simp
  have rows: "set (filter (\<lambda>r. opScopeKey r = scopeKey workspaceScope) (outbox_ops dbThreeOps)) = {opA, opB, opC}"
    by code_simp
  have st: "state opA = Pending" "state opB = Pending" "state opC = Pending" by code_simp+
  have t: "opCreatedAt opA = 100" "opCreatedAt opB = 200" "opCreatedAt opC = 300" by code_simp+
  have lt: "opCreatedAt opA < opCreatedAt opB" "opCreatedAt opB < opCreatedAt opC" using t by simp_all
  have ids: "map opId (fst (claimPending workspaceScope 2 1000 dbThreeOps)) = [''op-a'', ''op-b'']"
    by code_simp
  show ?thesis
    using u rows st t ids claimPending_fifo [OF u rows st lt, of 1000] by simp
qed

subsection \<open>A failed page\<close>

lemma applyLoop_append:
  "applyLoop h opts uuid now i (xs @ ys) acc
     = applyLoop h opts uuid now (i + length xs) ys (applyLoop h opts uuid now i xs acc)"
  by (induction xs arbitrary: i acc) simp_all

lemma applyOne_grows:
  "resErrors (fst acc) \<noteq> [] \<Longrightarrow> resErrors (fst (applyOne h opts newId now ch acc)) \<noteq> []"
  "resConflicts (fst acc) \<le> resConflicts (fst (applyOne h opts newId now ch acc))"
  by (auto simp: applyOne_def Let_def split: option.splits prod.splits sum.splits)

lemma applyLoop_grows:
  "resErrors (fst acc) \<noteq> [] \<Longrightarrow> resErrors (fst (applyLoop h opts uuid now i chs acc)) \<noteq> []"
  "resConflicts (fst acc) \<le> resConflicts (fst (applyLoop h opts uuid now i chs acc))"
proof (induction chs arbitrary: i acc)
  case Nil
  { case 1 then show ?case by simp }
  { case 2 show ?case by simp }
next
  case (Cons ch chs)
  { case 1
    then show ?case using Cons(1) applyOne_grows(1) by simp }
  { case 2
    show ?case
      using Cons(2) [of "applyOne h opts (uuid i) now ch acc" "i + 1"] applyOne_grows(2) [of acc h opts "uuid i" now ch]
      by simp }
qed

lemma handlerThrowsAt_errors:
  assumes "handlerThrowsAt handler opts uuid now chs db i"
  shows "resErrors (fst (applyLoop handler opts uuid now 0 chs
                           (\<lparr> resApplied = 0, resConflicts = 0, resErrors = [] \<rparr>, db))) \<noteq> []"
proof -
  let ?start = "(\<lparr> resApplied = 0, resConflicts = 0, resErrors = [] \<rparr>, db)"
  let ?before = "applyLoop handler opts uuid now 0 (take i chs) ?start"
  let ?after = "applyOne handler opts (uuid i) now (chs ! i) ?before"
  have i: "i < length chs" and more: "length (resErrors (fst ?after)) > length (resErrors (fst ?before))"
    using assms by (simp_all add: handlerThrowsAt_def Let_def)
  have split: "chs = take i chs @ chs ! i # drop (Suc i) chs"
    using i by (rule id_take_nth_drop)
  have len: "length (take i chs) = i" using i by simp
  have "applyLoop handler opts uuid now 0 chs ?start
          = applyLoop handler opts uuid now 0 (take i chs @ chs ! i # drop (Suc i) chs) ?start"
    using split by simp
  also have "\<dots> = applyLoop handler opts uuid now (i + 1) (drop (Suc i) chs) ?after"
    using len by (simp add: applyLoop_append)
  finally have run: "applyLoop handler opts uuid now 0 chs ?start
                       = applyLoop handler opts uuid now (i + 1) (drop (Suc i) chs) ?after" .
  have "resErrors (fst ?after) \<noteq> []" using more by auto
  then show ?thesis unfolding run by (rule applyLoop_grows(1))
qed

lemma handlerThrowsAt_handler:
  assumes "handlerThrowsAt handler opts uuid now chs db i"
  shows "\<exists>d e d'. applyChangeInternal (chs ! i) handler d = (Inl e, d')"
  using assms
  by (auto simp: handlerThrowsAt_def applyOne_def Let_def split: option.splits prod.splits sum.splits if_splits)

lemma applyChanges_rollback:
  assumes "resErrors (fst (applyChanges handler opts uuid now chs db)) \<noteq> []"
  shows "snd (applyChanges handler opts uuid now chs db) = db"
    and "resApplied (fst (applyChanges handler opts uuid now chs db)) = 0"
  using assms by (auto simp: applyChanges_def Let_def split: if_splits)

text \<open>
  C4. The loop of \<open>runDeltaPull\<close> stands before a page (more is expected, the page budget is not
  used up), the adapter delivers the page, and the handler throws on the \<open>i\<close>-th change of
  the page. Then the run ends with the database it had before the page was pulled: the
  stored cursor is the one from before the page, no change of the page is in the entity
  table, \<open>applyChanges\<close> reports \<open>applied = 0\<close>, and the in-memory cursor has not moved either.
\<close>

theorem runDeltaPull_failed_page_keeps_cursor:
  assumes more: "hasMoreNow st" and budget: "pagesPulled st < maxPagesPerRun runner"
    and page: "pullChanges runner (pagesPulled st) scope ck (currentCursor st) = Inr response"
    and h: "runnerHandler runner = Some handler"
    and thr: "handlerThrowsAt handler
                 \<lparr> optScope = Some scope, optConflictDetector = runnerConflictDetector runner \<rparr>
                 (uuid (pagesPulled st)) now (pageChanges response) db i"
  shows "snd (pullLoop runner uuid now scope ck (st, db)) = db
         \<and> getCursor scope ck (snd (pullLoop runner uuid now scope ck (st, db))) = getCursor scope ck db
         \<and> example_items (snd (pullLoop runner uuid now scope ck (st, db))) = example_items db
         \<and> resApplied (fst (applyChanges handler
                 \<lparr> optScope = Some scope, optConflictDetector = runnerConflictDetector runner \<rparr>
                 (uuid (pagesPulled st)) now (pageChanges response) db)) = 0
         \<and> (case fst (pullLoop runner uuid now scope ck (st, db)) of
               Inl e \<Rightarrow> False
             | Inr st' \<Rightarrow> pagesPulled st' = pagesPulled st + 1 \<and> totalApplied st' = totalApplied st
                          \<and> currentCursor st' = currentCursor st)"
proof -
  let ?res = "applyChanges handler
                 \<lparr> optScope = Some scope, optConflictDetector = runnerConflictDetector runner \<rparr>
                 (uuid (pagesPulled st)) now (pageChanges response) db"
  have err: "resErrors (fst ?res) \<noteq> []"
    using handlerThrowsAt_errors [OF thr] by (simp add: applyChanges_def Let_def)
  have nonempty: "pageChanges response \<noteq> []"
    using thr by (auto simp: handlerThrowsAt_def)
  have rb: "snd ?res = db" "resApplied (fst ?res) = 0"
    using applyChanges_rollback [OF err] by simp_all
  obtain result d where res: "?res = (result, d)" by (cases ?res)
  with rb err have d: "d = db" and z: "resApplied result = 0" and e: "resErrors result \<noteq> []" by simp_all
  have step: "pullPage runner uuid now scope ck (st, db)
        = Inr (Break (st\<lparr>totalChanges := totalChanges st + length (pageChanges response),
                          pagesPulled := pagesPulled st + 1,
                          totalApplied := totalApplied st + resApplied result,
                          totalConflicts := totalConflicts st + resConflicts result,
                          totalErrors := totalErrors st + length (resErrors result)\<rparr>, db))"
    using page h nonempty res d e by (simp add: pullPage_def Let_def)
  have loop: "pullLoop runner uuid now scope ck (st, db)
        = (Inr (st\<lparr>totalChanges := totalChanges st + length (pageChanges response),
                          pagesPulled := pagesPulled st + 1,
                          totalApplied := totalApplied st + resApplied result,
                          totalConflicts := totalConflicts st + resConflicts result,
                          totalErrors := totalErrors st + length (resErrors result)\<rparr>), db)"
    using more budget step by (subst pullLoop.simps) simp
  show ?thesis using loop rb z by simp
qed

theorem runDeltaPull_failed_page_keeps_cursor_witness:
  "hasMoreNow (fst afterPageOne) \<and> pagesPulled (fst afterPageOne) < maxPagesPerRun strictRunner
   \<and> pullChanges strictRunner 1 workspaceScope ''example_items'' ''cursor-1'' = Inr pageTwo
   \<and> handlerThrowsAt strictHandler
         \<lparr> optScope = Some workspaceScope, optConflictDetector = Some DefaultConflictDetector \<rparr>
         (sampleUuid 1) 500 (pageChanges pageTwo) (snd afterPageOne) 1
   \<and> map snd (resErrors (fst (applyChanges strictHandler
                 \<lparr> optScope = Some workspaceScope, optConflictDetector = Some DefaultConflictDetector \<rparr>
                 (sampleUuid 1) 500 (pageChanges pageTwo) (snd afterPageOne)))) = [''name is required'']
   \<and> snd (pullLoop strictRunner sampleUuid 500 workspaceScope ''example_items'' afterPageOne) = snd afterPageOne
   \<and> runDeltaPull strictRunner sampleUuid 500 workspaceScope ''example_items'' emptyDB
        = pullLoop strictRunner sampleUuid 500 workspaceScope ''example_items'' afterPageOne
   \<and> getCursor workspaceScope ''example_items''
        (snd (runDeltaPull strictRunner sampleUuid 500 workspaceScope ''example_items'' emptyDB)) = ''cursor-1''
   \<and> map itemId (example_items
        (snd (runDeltaPull strictRunner sampleUuid 500 workspaceScope ''example_items'' emptyDB))) = [''e5'']"
proof -
  have more: "hasMoreNow (fst afterPageOne)" by code_simp
  have budget: "pagesPulled (fst afterPageOne) < maxPagesPerRun strictRunner" by code_simp
  have page: "pullChanges strictRunner (pagesPulled (fst afterPageOne)) workspaceScope ''example_items''
                (currentCursor (fst afterPageOne)) = Inr pageTwo"
    by code_simp
  have p1: "pagesPulled (fst afterPageOne) = 1" and c1: "currentCursor (fst afterPageOne) = ''cursor-1''"
    by code_simp+
  have h: "runnerHandler strictRunner = Some strictHandler" by (simp add: strictRunner_def)
  have det: "runnerConflictDetector strictRunner = Some DefaultConflictDetector" by (simp add: strictRunner_def)
  have errs: "map snd (resErrors (fst (applyChanges strictHandler
                 \<lparr> optScope = Some workspaceScope, optConflictDetector = Some DefaultConflictDetector \<rparr>
                 (sampleUuid 1) 500 (pageChanges pageTwo) (snd afterPageOne)))) = [''name is required'']"
    by code_simp
  have thr1: "handlerThrowsAt strictHandler
                 \<lparr> optScope = Some workspaceScope, optConflictDetector = Some DefaultConflictDetector \<rparr>
                 (sampleUuid 1) 500 (pageChanges pageTwo) (snd afterPageOne) 1"
    by code_simp
  then have thr: "handlerThrowsAt strictHandler
                 \<lparr> optScope = Some workspaceScope, optConflictDetector = runnerConflictDetector strictRunner \<rparr>
                 (sampleUuid (pagesPulled (fst afterPageOne))) 500 (pageChanges pageTwo) (snd afterPageOne) 1"
    unfolding det p1 .
  have run: "runDeltaPull strictRunner sampleUuid 500 workspaceScope ''example_items'' emptyDB
        = pullLoop strictRunner sampleUuid 500 workspaceScope ''example_items'' afterPageOne"
    by code_simp
  have cur: "getCursor workspaceScope ''example_items'' (snd afterPageOne) = ''cursor-1''" by code_simp
  have items: "map itemId (example_items (snd afterPageOne)) = [''e5'']" by code_simp
  have keep: "snd (pullLoop strictRunner sampleUuid 500 workspaceScope ''example_items'' afterPageOne) = snd afterPageOne"
    using more budget page h thr
      runDeltaPull_failed_page_keeps_cursor [where st = "fst afterPageOne" and db = "snd afterPageOne"
        and runner = strictRunner and scope = workspaceScope and ck = "''example_items''"
        and response = pageTwo and handler = strictHandler and uuid = sampleUuid and now = 500 and i = 1]
    by simp
  show ?thesis
    using more budget page p1 c1 thr1 errs keep run cur items by simp
qed

subsection \<open>Conflict counts of a failed batch\<close>

text \<open>
  Every turn of the loop that takes the conflict path adds one to the conflict counter, and
  no other turn changes it: the counter at the end of the loop is the number of turns at
  which a conflict was detected.
\<close>

lemma applyLoop_snoc:
  "applyLoop h opts uuid now 0 (xs @ [x]) acc
     = applyOne h opts (uuid (length xs)) now x (applyLoop h opts uuid now 0 xs acc)"
  by (simp add: applyLoop_append)

lemma applyOne_conflicts:
  "resConflicts (fst (applyOne h opts newId now ch acc))
     = resConflicts (fst acc) + (if heldBack opts ch (snd acc) then 1 else 0)"
  by (auto simp: applyOne_def heldBack_def Let_def split: option.splits prod.splits sum.splits)

lemma applyOne_held:
  assumes "heldBack \<lparr> optScope = Some sc, optConflictDetector = Some DefaultConflictDetector \<rparr> ch (snd acc)"
  shows "snd (applyOne h \<lparr> optScope = Some sc, optConflictDetector = Some DefaultConflictDetector \<rparr> newId now ch acc)
           = onConflictDetected newId now sc ch (snd acc)"
  using assms by (simp add: applyOne_def heldBack_def Let_def DefaultConflictDetector_def)

lemma conflictDetectedAt_prefix:
  assumes "i < length xs"
  shows "conflictDetectedAt h opts uuid now (xs @ ys) db i = conflictDetectedAt h opts uuid now xs db i"
  using assms by (simp add: conflictDetectedAt_def nth_append)

lemma conflictDetectedAt_last:
  "conflictDetectedAt h opts uuid now (xs @ [x]) db (length xs)
     = heldBack opts x (snd (applyLoop h opts uuid now 0 xs (\<lparr> resApplied = 0, resConflicts = 0, resErrors = [] \<rparr>, db)))"
  by (simp add: conflictDetectedAt_def)

lemma applyLoop_conflict_count:
  "resConflicts (fst (applyLoop h opts uuid now 0 chs (\<lparr> resApplied = 0, resConflicts = 0, resErrors = [] \<rparr>, db)))
     = length (filter (conflictDetectedAt h opts uuid now chs db) [0..<length chs])"
proof (induction chs rule: rev_induct)
  case Nil
  then show ?case by simp
next
  case (snoc x xs)
  have old: "filter (conflictDetectedAt h opts uuid now (xs @ [x]) db) [0..<length xs]
               = filter (conflictDetectedAt h opts uuid now xs db) [0..<length xs]"
    by (rule filter_cong) (simp_all add: conflictDetectedAt_prefix)
  show ?case
    using snoc.IH
    by (simp add: applyLoop_snoc applyOne_conflicts old conflictDetectedAt_last)
qed

lemma onConflictDetected_records:
  "hasConflict sc ek eid (onConflictDetected newId now sc (Upsert ek eid dat u) d)"
proof (cases "hasConflict sc ek eid d")
  case True
  then show ?thesis by (simp add: onConflictDetected_def)
next
  case False
  then have none: "filter (\<lambda>c. cScopeKey c = scopeKey sc \<and> cEntityKey c = ek \<and> cEntityId c = eid
                              \<and> resolvedAt c = None) (conflicts d) = []"
    by (simp add: hasConflict_def Let_def)
  show ?thesis
    using False none by (simp add: onConflictDetected_def createConflict_def Let_def hasConflict_def)
qed

text \<open>
  C9. The handler throws on some change of the batch. Then \<open>applyChanges\<close> reports
  \<open>applied = 0\<close>, a non-empty error list, and as \<open>conflicts\<close> the number of turns of the
  whole loop at which a conflict was detected: the turns before the throwing change and
  the turns after it, since the loop catches the error and goes on. The database it leaves
  is the one from before the batch. With the default detector, a turn that detects a
  conflict leaves an unresolved conflict row for the entity in the database inside the
  transaction, and after the batch the table holds such a row only if it did before: the
  rows written during the batch are gone. If the conflict table was empty before the batch
  and some turn detected a conflict, the reported count exceeds the number of rows in the
  table.
\<close>

theorem applyChanges_failed_batch_counts_all_conflicts:
  assumes thr: "handlerThrowsAt handler opts uuid now chs db j"
  shows "resApplied (fst (applyChanges handler opts uuid now chs db)) = 0
    \<and> resConflicts (fst (applyChanges handler opts uuid now chs db))
        = length (filter (conflictDetectedAt handler opts uuid now chs db) [0..<length chs])
    \<and> resErrors (fst (applyChanges handler opts uuid now chs db)) \<noteq> []
    \<and> snd (applyChanges handler opts uuid now chs db) = db
    \<and> (opts = \<lparr> optScope = Some scope, optConflictDetector = Some DefaultConflictDetector \<rparr>
         \<and> conflictDetectedAt handler opts uuid now chs db i \<longrightarrow>
           hasConflict scope (changeEntityKey (chs ! i)) (changeEntityId (chs ! i))
             (snd (applyLoop handler opts uuid now 0 (take (Suc i) chs)
                     (\<lparr> resApplied = 0, resConflicts = 0, resErrors = [] \<rparr>, db)))
           \<and> hasConflict scope (changeEntityKey (chs ! i)) (changeEntityId (chs ! i))
               (snd (applyChanges handler opts uuid now chs db))
             = hasConflict scope (changeEntityKey (chs ! i)) (changeEntityId (chs ! i)) db)
    \<and> (conflicts db = [] \<and> conflictDetectedAt handler opts uuid now chs db i \<longrightarrow>
         length (conflicts (snd (applyChanges handler opts uuid now chs db)))
           < resConflicts (fst (applyChanges handler opts uuid now chs db)))"
proof -
  let ?start = "(\<lparr> resApplied = 0, resConflicts = 0, resErrors = [] \<rparr>, db)"
  let ?loop = "applyLoop handler opts uuid now 0 chs ?start"
  let ?count = "length (filter (conflictDetectedAt handler opts uuid now chs db) [0..<length chs])"
  have errs: "resErrors (fst ?loop) \<noteq> []" using thr by (rule handlerThrowsAt_errors)
  have result: "applyChanges handler opts uuid now chs db
      = (\<lparr> resApplied = 0, resConflicts = ?count, resErrors = resErrors (fst ?loop) \<rparr>, db)"
    using errs by (simp add: applyChanges_def Let_def applyLoop_conflict_count)
  have written: "hasConflict scope (changeEntityKey (chs ! i)) (changeEntityId (chs ! i))
             (snd (applyLoop handler opts uuid now 0 (take (Suc i) chs) ?start))"
    if opts: "opts = \<lparr> optScope = Some scope, optConflictDetector = Some DefaultConflictDetector \<rparr>"
      and det: "conflictDetectedAt handler opts uuid now chs db i"
  proof -
    let ?before = "applyLoop handler opts uuid now 0 (take i chs) ?start"
    have i: "i < length chs" and held: "heldBack opts (chs ! i) (snd ?before)"
      using det by (simp_all add: conflictDetectedAt_def)
    have up: "isUpsert (chs ! i)" using held opts by (simp add: heldBack_def)
    then obtain ek eid dat u where ch: "chs ! i = Upsert ek eid dat u"
      by (cases "chs ! i") (simp_all add: isUpsert_def)
    have "take (Suc i) chs = take i chs @ [chs ! i]" using i by (rule take_Suc_conv_app_nth)
    then have "applyLoop handler opts uuid now 0 (take (Suc i) chs) ?start
                 = applyOne handler opts (uuid i) now (chs ! i) ?before"
      using i by (simp add: applyLoop_snoc)
    then have "snd (applyLoop handler opts uuid now 0 (take (Suc i) chs) ?start)
                 = onConflictDetected (uuid i) now scope (chs ! i) (snd ?before)"
      using held applyOne_held [of scope "chs ! i" ?before handler "uuid i" now] opts by simp
    then show ?thesis using onConflictDetected_records [of scope ek eid "uuid i" now dat u "snd ?before"] ch
      by simp
  qed
  have exceed: "length (conflicts (snd (applyChanges handler opts uuid now chs db)))
           < resConflicts (fst (applyChanges handler opts uuid now chs db))"
    if empty: "conflicts db = []" and det: "conflictDetectedAt handler opts uuid now chs db i"
  proof -
    have "i \<in> set (filter (conflictDetectedAt handler opts uuid now chs db) [0..<length chs])"
      using det by (simp add: conflictDetectedAt_def)
    then have "0 < ?count" by (rule length_pos_if_in_set)
    then show ?thesis using empty by (simp add: result)
  qed
  have c1: "resApplied (fst (applyChanges handler opts uuid now chs db)) = 0"
    and c2: "resConflicts (fst (applyChanges handler opts uuid now chs db)) = ?count"
    and c3: "resErrors (fst (applyChanges handler opts uuid now chs db)) \<noteq> []"
    and c4: "snd (applyChanges handler opts uuid now chs db) = db"
    using errs by (simp_all add: result)
  show ?thesis
    unfolding c4 using c1 c2 c3 written exceed [unfolded c4] by blast
qed

text \<open>
  The batch \<open>lateConflictBatch\<close> on the database with the local edit of \<open>e1\<close>: the handler
  throws at the second change, conflicts are detected at the first and at the third, and
  the result reports two conflicts. The first turn writes the row \<open>uuid-0-0\<close> inside the
  transaction; after the batch the conflict table is empty again.
\<close>

theorem applyChanges_failed_batch_counts_all_conflicts_witness:
  "map (handlerThrowsAt strictHandler defaultOptions (sampleUuid 0) 500 lateConflictBatch dbLocalEdit) [0, 1, 2]
     = [False, True, False]
   \<and> map (conflictDetectedAt strictHandler defaultOptions (sampleUuid 0) 500 lateConflictBatch dbLocalEdit) [0, 1, 2]
     = [True, False, True]
   \<and> applyChanges strictHandler defaultOptions (sampleUuid 0) 500 lateConflictBatch dbLocalEdit
     = (\<lparr> resApplied = 0, resConflicts = 2, resErrors = [(namelessChange, ''name is required'')] \<rparr>, dbLocalEdit)
   \<and> hasConflict workspaceScope ''example_items'' ''e1'' dbLocalEdit = False
   \<and> hasConflict workspaceScope ''example_items'' ''e1''
        (snd (applyLoop strictHandler defaultOptions (sampleUuid 0) 500 0 (take 1 lateConflictBatch)
                (\<lparr> resApplied = 0, resConflicts = 0, resErrors = [] \<rparr>, dbLocalEdit)))
   \<and> map conflictId (conflicts
        (snd (applyLoop strictHandler defaultOptions (sampleUuid 0) 500 0 (take 1 lateConflictBatch)
                (\<lparr> resApplied = 0, resConflicts = 0, resErrors = [] \<rparr>, dbLocalEdit)))) = [''uuid-0-0'']
   \<and> conflicts (snd (applyChanges strictHandler defaultOptions (sampleUuid 0) 500 lateConflictBatch dbLocalEdit)) = []"
proof -
  have thr: "handlerThrowsAt strictHandler defaultOptions (sampleUuid 0) 500 lateConflictBatch dbLocalEdit 1"
    by code_simp
  have det: "conflictDetectedAt strictHandler defaultOptions (sampleUuid 0) 500 lateConflictBatch dbLocalEdit 0"
    by code_simp
  have thrs: "map (handlerThrowsAt strictHandler defaultOptions (sampleUuid 0) 500 lateConflictBatch dbLocalEdit) [0, 1, 2]
     = [False, True, False]"
    by code_simp
  have dets: "map (conflictDetectedAt strictHandler defaultOptions (sampleUuid 0) 500 lateConflictBatch dbLocalEdit) [0, 1, 2]
     = [True, False, True]"
    by code_simp
  have res: "applyChanges strictHandler defaultOptions (sampleUuid 0) 500 lateConflictBatch dbLocalEdit
     = (\<lparr> resApplied = 0, resConflicts = 2, resErrors = [(namelessChange, ''name is required'')] \<rparr>, dbLocalEdit)"
    by code_simp
  have before: "hasConflict workspaceScope ''example_items'' ''e1'' dbLocalEdit = False" by code_simp
  have empty: "conflicts dbLocalEdit = []" by code_simp
  have row: "map conflictId (conflicts
        (snd (applyLoop strictHandler defaultOptions (sampleUuid 0) 500 0 (take 1 lateConflictBatch)
                (\<lparr> resApplied = 0, resConflicts = 0, resErrors = [] \<rparr>, dbLocalEdit)))) = [''uuid-0-0'']"
    by code_simp
  have ch0: "lateConflictBatch ! 0 = Upsert ''example_items'' ''e1'' (JObj [(''name'', JStr ''theirs'')]) 150"
    by (simp add: lateConflictBatch_def remoteFirst_def)
  have opts: "defaultOptions = \<lparr> optScope = Some workspaceScope, optConflictDetector = Some DefaultConflictDetector \<rparr>"
    by (simp add: defaultOptions_def)
  show ?thesis
    using thrs dets res before row empty opts det ch0
      applyChanges_failed_batch_counts_all_conflicts [OF thr, where scope = workspaceScope and i = 0]
    by simp
qed

text \<open>
  In the same batch one conflict is detected before the change on which the handler throws,
  and the result reports two: the upsert after the throwing change is examined too, and
  counted.
\<close>

theorem applyChanges_conflicts_after_throw_counterexample:
  "map (handlerThrowsAt strictHandler defaultOptions (sampleUuid 0) 500 lateConflictBatch dbLocalEdit) [0, 1, 2]
     = [False, True, False]
   \<and> length (filter (conflictDetectedAt strictHandler defaultOptions (sampleUuid 0) 500 lateConflictBatch dbLocalEdit)
               [0..<1]) = 1
   \<and> resConflicts (fst (applyChanges strictHandler defaultOptions (sampleUuid 0) 500 lateConflictBatch dbLocalEdit)) = 2
   \<and> resConflicts (fst (applyChanges strictHandler defaultOptions (sampleUuid 0) 500 lateConflictBatch dbLocalEdit)) \<noteq> 1"
  by code_simp

subsection \<open>Terminal states of outbox operations\<close>

lemma row_kept: "r \<in> set rows \<Longrightarrow> f r = r \<Longrightarrow> r \<in> set (map f rows)"
  by force

lemma updateState_other:
  "r \<in> set (outbox_ops d) \<Longrightarrow> opId r \<noteq> j \<Longrightarrow> r \<in> set (outbox_ops (updateState j st err now d))"
  by (simp add: updateState_def row_kept)

lemma markForRetry_other:
  "r \<in> set (outbox_ops d) \<Longrightarrow> opId r \<noteq> j \<Longrightarrow> r \<in> set (outbox_ops (markForRetry j now d))"
  by (simp add: markForRetry_def row_kept)

lemma claimByIds_other:
  "r \<in> set (outbox_ops d) \<Longrightarrow> state r \<noteq> Pending \<or> opId r \<notin> set ids \<Longrightarrow> r \<in> set (outbox_ops (claimByIds ids now d))"
  by (auto simp: claimByIds_def intro!: row_kept)

lemma claimByIds_not_pending:
  "r \<in> set (outbox_ops d) \<Longrightarrow> state r \<noteq> Pending \<Longrightarrow> r \<in> set (outbox_ops (claimByIds ids now d))"
  by (rule claimByIds_other) simp_all

lemma resetStale_other:
  "r \<in> set (outbox_ops d) \<Longrightarrow> state r \<noteq> InFlight \<Longrightarrow>
     r \<in> set (outbox_ops (snd (resetStaleInFlight sc ms now d)))"
  by (simp add: resetStaleInFlight_def Let_def row_kept)

lemma updateState_ids: "map opId (outbox_ops (updateState j st err now d)) = map opId (outbox_ops d)"
  by (simp add: updateState_def comp_def if_distrib [of opId] cong: if_cong)

lemma markForRetry_ids: "map opId (outbox_ops (markForRetry j now d)) = map opId (outbox_ops d)"
  by (simp add: markForRetry_def comp_def if_distrib [of opId] cong: if_cong)

lemma claimByIds_ids: "map opId (outbox_ops (claimByIds ids now d)) = map opId (outbox_ops d)"
  by (simp add: claimByIds_def comp_def if_distrib [of opId] cong: if_cong)

lemma resetStale_ids: "map opId (outbox_ops (snd (resetStaleInFlight sc ms now d))) = map opId (outbox_ops d)"
  by (simp add: resetStaleInFlight_def Let_def comp_def if_distrib [of opId] cong: if_cong)

lemma reconcileOp_ids: "map opId (outbox_ops (snd (reconcileOp cfg now res acc op))) = map opId (outbox_ops (snd acc))"
  by (simp add: reconcileOp_def Let_def updateState_ids markForRetry_ids split: option.splits OutboxPushResult.splits)

lemma reconcileOp_other:
  "r \<in> set (outbox_ops (snd acc)) \<Longrightarrow> opId r \<noteq> opId op \<Longrightarrow>
     r \<in> set (outbox_ops (snd (reconcileOp cfg now res acc op)))"
  by (simp add: reconcileOp_def Let_def updateState_other markForRetry_other
           split: option.splits OutboxPushResult.splits)

lemma reconcile_fold_ids:
  "map opId (outbox_ops (snd (foldl (reconcileOp cfg now res) acc ops))) = map opId (outbox_ops (snd acc))"
  by (induction ops arbitrary: acc) (simp_all add: reconcileOp_ids)

lemma reconcile_fold_other:
  "r \<in> set (outbox_ops (snd acc)) \<Longrightarrow> opId r \<notin> opId ` set ops \<Longrightarrow>
     r \<in> set (outbox_ops (snd (foldl (reconcileOp cfg now res) acc ops)))"
  by (induction ops arbitrary: acc) (simp_all add: reconcileOp_other)

lemma exhaust_fold_ids:
  "map opId (outbox_ops (foldl (\<lambda>d op. updateState (opId op) st err now d) d ops)) = map opId (outbox_ops d)"
  by (induction ops arbitrary: d) (simp_all add: updateState_ids)

lemma exhaust_fold_other:
  "r \<in> set (outbox_ops d) \<Longrightarrow> opId r \<notin> opId ` set ops \<Longrightarrow>
     r \<in> set (outbox_ops (foldl (\<lambda>d op. updateState (opId op) st err now d) d ops))"
  by (induction ops arbitrary: d) (simp_all add: updateState_other)

lemma sqlLimit_subset: "set (sqlLimit n xs) \<subseteq> set xs"
  by (auto simp: sqlLimit_def dest: in_set_takeD)

lemma jsSlice0_subset: "set (jsSlice0 n xs) \<subseteq> set xs"
  by (auto simp: jsSlice0_def dest: in_set_takeD)

lemma getPending_member:
  assumes "p \<in> set (getPending sc n d)"
  shows "p \<in> set (outbox_ops d) \<and> state p = Pending \<and> opScopeKey p = scopeKey sc"
  using assms sqlLimit_subset [of n] by (fastforce simp: getPending_def Let_def)

lemma exhausted_subset: "set (exhaustedOpsOf cfg now sc d) \<subseteq> set (pendingOpsOf cfg now sc d)"
  by (auto simp: exhaustedOpsOf_def)

lemma ready_subset: "set (readyOpsOf cfg elapsed now sc d) \<subseteq> set (pendingOpsOf cfg now sc d)"
  using jsSlice0_subset [of "batchSize cfg"] by (fastforce simp: readyOpsOf_def)

lemma distinct_head_id:
  assumes "y \<in> set xs" and "distinct (map f (x # xs))"
  shows "f y \<noteq> f x"
proof
  assume eq: "f y = f x"
  have "f y \<in> f ` set xs" using assms(1) by (rule imageI)
  then have "f x \<in> f ` set xs" using eq by simp
  then show False using assms(2) by simp
qed

lemma terminal_not_pending_id:
  assumes uniq: "uniqueOpIds d" and r: "r \<in> set (outbox_ops d)" and t: "terminal r"
  shows "opId r \<notin> opId ` set (pendingOpsOf cfg now sc d)"
proof
  assume "opId r \<in> opId ` set (pendingOpsOf cfg now sc d)"
  then obtain p where p: "p \<in> set (pendingOpsOf cfg now sc d)" and eq: "opId r = opId p" by auto
  let ?d1 = "snd (resetStaleInFlight sc (5 * 60 * 1000) now d)"
  have p1: "p \<in> set (outbox_ops ?d1)" "state p = Pending"
    using p getPending_member unfolding pendingOpsOf_def by blast+
  have r1: "r \<in> set (outbox_ops ?d1)" using r t by (intro resetStale_other) (auto simp: terminal_def)
  have "distinct (map opId (outbox_ops ?d1))" using uniq by (simp add: resetStale_ids uniqueOpIds_def)
  then have "r = p" using r1 p1(1) eq by (rule same_id_same_row)
  then show False using t p1(2) by (simp add: terminal_def)
qed

lemma processBatch_idle:
  assumes "\<not> isProcessing proc"
  shows "processBatch adapter elapsed now scope (proc, db) =
     (let cfg = config proc;
          finished = proc\<lparr>isProcessing := False, processingScope := None\<rparr>;
          db1 = snd (resetStaleInFlight scope (5 * 60 * 1000) now db);
          db2 = foldl (\<lambda>d op. updateState (opId op) Failed
                         (Some \<lparr> code = ''max_attempts'', message = ''Max retry attempts reached'' \<rparr>) now d)
                      db1 (exhaustedOpsOf cfg now scope db);
          readyOps = readyOpsOf cfg elapsed now scope db;
          db3 = claimByIds (map opId readyOps) now db2
      in if pendingOpsOf cfg now scope db = [] then (\<lparr> returned = Inr 0, adapterCalls = [] \<rparr>, finished, db1)
         else if readyOps = [] then (\<lparr> returned = Inr 0, adapterCalls = [] \<rparr>, finished, db2)
         else (case adapter scope (map toAdapterOp readyOps) of
                 Inl e \<Rightarrow> (\<lparr> returned = Inl e, adapterCalls = [(scope, map toAdapterOp readyOps)] \<rparr>, finished, db3)
               | Inr results \<Rightarrow>
                   (\<lparr> returned = Inr (fst (foldl (reconcileOp cfg now (resultsByIdMap results)) (0, db3) readyOps)),
                      adapterCalls = [(scope, map toAdapterOp readyOps)] \<rparr>,
                    finished,
                    snd (foldl (reconcileOp cfg now (resultsByIdMap results)) (0, db3) readyOps))))"
  using assms
  unfolding processBatch_def pendingOpsOf_def exhaustedOpsOf_def readyOpsOf_def Let_def
  by (simp split: sum.splits)


lemma distinct_ids_sublist:
  assumes "distinct (map opId ys)" and "distinct xs" and "set xs \<subseteq> set ys"
  shows "distinct (map opId xs)"
  using assms by (auto simp: distinct_map inj_on_def)

lemma getPending_distinct_ids:
  assumes "distinct (map opId (outbox_ops d))"
  shows "distinct (map opId (getPending sc n d))"
proof -
  have "distinct (outbox_ops d)" using assms by (simp add: distinct_map)
  then have dist: "distinct (getPending sc n d)"
    by (simp add: getPending_def Let_def sqlLimit_def)
  have sub: "set (getPending sc n d) \<subseteq> set (outbox_ops d)"
    using getPending_member by blast
  show ?thesis by (rule distinct_ids_sublist [OF assms dist sub])
qed

lemma pendingOps_distinct_ids:
  assumes "uniqueOpIds d"
  shows "distinct (map opId (pendingOpsOf cfg now sc d))"
  unfolding pendingOpsOf_def
  using assms by (simp add: getPending_distinct_ids resetStale_ids uniqueOpIds_def)

lemma pendingOps_member:
  assumes "p \<in> set (pendingOpsOf cfg now sc d)"
  shows "p \<in> set (outbox_ops (snd (resetStaleInFlight sc (5 * 60 * 1000) now d))) \<and> state p = Pending"
  using assms getPending_member unfolding pendingOpsOf_def by blast

lemma exhausted_ready_disjoint_ids:
  assumes uniq: "uniqueOpIds d"
    and e: "x \<in> set (exhaustedOpsOf cfg now sc d)" and r: "y \<in> set (readyOpsOf cfg elapsed now sc d)"
  shows "opId x \<noteq> opId y"
proof
  assume eq: "opId x = opId y"
  have xp: "x \<in> set (pendingOpsOf cfg now sc d)" using e exhausted_subset by blast
  have yp: "y \<in> set (pendingOpsOf cfg now sc d)" using r ready_subset by blast
  have "x = y"
    using pendingOps_distinct_ids [OF uniq] xp yp eq by (rule same_id_same_row)
  moreover have "int (attemptCount x) \<ge> maxAttempts cfg" using e by (simp add: exhaustedOpsOf_def)
  moreover have "int (attemptCount y) < maxAttempts cfg"
    using r jsSlice0_subset [of "batchSize cfg"] by (fastforce simp: readyOpsOf_def)
  ultimately show False by simp
qed

lemma readyOps_distinct_ids:
  assumes "uniqueOpIds d"
  shows "distinct (map opId (readyOpsOf cfg elapsed now sc d))"
proof -
  have dp: "distinct (pendingOpsOf cfg now sc d)"
    using pendingOps_distinct_ids [OF assms] by (simp add: distinct_map)
  have "distinct (readyOpsOf cfg elapsed now sc d)"
    using dp by (simp add: readyOpsOf_def jsSlice0_def)
  then show ?thesis
    by (rule distinct_ids_sublist [OF pendingOps_distinct_ids [OF assms] _ ready_subset])
qed

lemma exhaustedOps_distinct_ids:
  assumes "uniqueOpIds d"
  shows "distinct (map opId (exhaustedOpsOf cfg now sc d))"
  unfolding exhaustedOpsOf_def using pendingOps_distinct_ids [OF assms] by (rule distinct_map_filter)

lemma updateState_hit:
  "x \<in> set (outbox_ops d) \<Longrightarrow> opId x = j \<Longrightarrow>
     x\<lparr>state := st, lastErrorJson := (case err of Some e \<Rightarrow> Some (safeJsonEncode (errorJson e)) | None \<Rightarrow> None),
        opUpdatedAt := now\<rparr> \<in> set (outbox_ops (updateState j st err now d))"
  by (force simp: updateState_def)

lemma markForRetry_hit:
  "x \<in> set (outbox_ops d) \<Longrightarrow> opId x = j \<Longrightarrow>
     x\<lparr>state := Pending, attemptCount := attemptCount x + 1, opUpdatedAt := now\<rparr>
       \<in> set (outbox_ops (markForRetry j now d))"
  by (force simp: markForRetry_def)

lemma claimByIds_hit:
  "x \<in> set (outbox_ops d) \<Longrightarrow> opId x \<in> set ids \<Longrightarrow> state x = Pending \<Longrightarrow>
     x\<lparr>state := InFlight, opUpdatedAt := now\<rparr> \<in> set (outbox_ops (claimByIds ids now d))"
  by (force simp: claimByIds_def)

lemma exhaust_fold_hit:
  assumes "distinct (map opId ops)" and "r \<in> set ops" and "r \<in> set (outbox_ops d)"
  shows "r\<lparr>state := st, lastErrorJson := (case err of Some e \<Rightarrow> Some (safeJsonEncode (errorJson e)) | None \<Rightarrow> None),
           opUpdatedAt := now\<rparr>
           \<in> set (outbox_ops (foldl (\<lambda>d op. updateState (opId op) st err now d) d ops))"
  using assms
proof (induction ops arbitrary: d)
  case Nil
  then show ?case by simp
next
  case (Cons op ops)
  show ?case
  proof (cases "op = r")
    case True
    let ?r' = "r\<lparr>state := st, lastErrorJson := (case err of Some e \<Rightarrow> Some (safeJsonEncode (errorJson e)) | None \<Rightarrow> None),
                  opUpdatedAt := now\<rparr>"
    have "?r' \<in> set (outbox_ops (updateState (opId op) st err now d))"
      using Cons.prems(3) True by (intro updateState_hit) simp_all
    moreover have "opId ?r' \<notin> opId ` set ops" using Cons.prems(1) True by simp
    ultimately show ?thesis by (simp add: exhaust_fold_other)
  next
    case False
    then have in_ops: "r \<in> set ops" using Cons.prems(2) by simp
    then have "opId r \<noteq> opId op" using Cons.prems(1) by (rule distinct_head_id)
    then have "r \<in> set (outbox_ops (updateState (opId op) st err now d))"
      using Cons.prems(3) by (intro updateState_other)
    then show ?thesis using Cons.IH [OF _ in_ops] Cons.prems(1) by simp
  qed
qed

lemma reconcileOp_hit_failed:
  assumes "x \<in> set (outbox_ops (snd acc))" and "opId x = opId op" and "attemptCount x = attemptCount op"
    and "res (opId op) = Some (PushFailed i retryable err)"
  shows "afterFailure cfg now retryable err x \<in> set (outbox_ops (snd (reconcileOp cfg now res acc op)))"
proof (cases "retryable \<and> int (attemptCount op) + 1 < maxAttempts cfg")
  case True
  have "x\<lparr>state := Pending, attemptCount := attemptCount x + 1, opUpdatedAt := now\<rparr>
          \<in> set (outbox_ops (markForRetry (opId op) now (snd acc)))"
    using assms(1,2) by (rule markForRetry_hit)
  from updateState_hit [OF this, where j = "opId op" and st = Pending and err = "Some err" and now = now]
  show ?thesis using True assms(2,3,4) by (simp add: reconcileOp_def Let_def afterFailure_def)
next
  case False
  from updateState_hit [OF assms(1), where j = "opId op" and st = Failed and err = "Some err" and now = now]
  show ?thesis using False assms(2,3,4) by (auto simp: reconcileOp_def Let_def afterFailure_def)
qed

lemma reconcile_fold_hit_failed:
  assumes "distinct (map opId ops)" and "r \<in> set ops" and "x \<in> set (outbox_ops (snd acc))"
    and "opId x = opId r" and "attemptCount x = attemptCount r"
    and "res (opId r) = Some (PushFailed i retryable err)"
  shows "afterFailure cfg now retryable err x
           \<in> set (outbox_ops (snd (foldl (reconcileOp cfg now res) acc ops)))"
  using assms
proof (induction ops arbitrary: acc)
  case Nil
  then show ?case by simp
next
  case (Cons op ops)
  show ?case
  proof (cases "op = r")
    case True
    have "afterFailure cfg now retryable err x \<in> set (outbox_ops (snd (reconcileOp cfg now res acc op)))"
      using Cons.prems(3,4,5,6) True by (intro reconcileOp_hit_failed) simp_all
    moreover have "opId (afterFailure cfg now retryable err x) \<notin> opId ` set ops"
      using Cons.prems(1,4) True by (simp add: afterFailure_def)
    ultimately show ?thesis by (simp add: reconcile_fold_other)
  next
    case False
    then have in_ops: "r \<in> set ops" using Cons.prems(2) by simp
    then have "opId r \<noteq> opId op" using Cons.prems(1) by (rule distinct_head_id)
    then have "opId x \<noteq> opId op" using Cons.prems(4) by simp
    then have "x \<in> set (outbox_ops (snd (reconcileOp cfg now res acc op)))"
      using Cons.prems(3) by (intro reconcileOp_other)
    then show ?thesis using Cons.IH [OF _ in_ops _ Cons.prems(4,5,6)] Cons.prems(1) by simp
  qed
qed


lemma claimPending_terminal:
  assumes uniq: "uniqueOpIds db" and r: "r \<in> set (outbox_ops db)" and t: "terminal r"
  shows "r \<in> set (outbox_ops (snd (claimPending scope n now db)))"
    and "opId r \<notin> opId ` set (fst (claimPending scope n now db))"
proof -
  let ?d1 = "snd (resetStaleInFlight scope (5 * 60 * 1000) now db)"
  let ?pending = "getPending scope n ?d1"
  let ?d2 = "claimByIds (map opId ?pending) now ?d1"
  have st: "state r \<noteq> InFlight" "state r \<noteq> Pending" using t by (auto simp: terminal_def)
  have r1: "r \<in> set (outbox_ops ?d1)" using r st(1) by (rule resetStale_other)
  have r2: "r \<in> set (outbox_ops ?d2)" using r1 st(2) by (rule claimByIds_not_pending)
  have cp: "claimPending scope n now db = (getByIds (map opId ?pending) ?d2, ?d2)"
    by (simp add: claimPending_def Let_def)
  show "r \<in> set (outbox_ops (snd (claimPending scope n now db)))" using r2 by (simp add: cp)
  have d1: "distinct (map opId (outbox_ops ?d1))" using uniq by (simp add: resetStale_ids uniqueOpIds_def)
  have notin: "opId r \<notin> opId ` set ?pending"
  proof
    assume "opId r \<in> opId ` set ?pending"
    then obtain p where p: "p \<in> set ?pending" and eq: "opId r = opId p" by auto
    have "p \<in> set (outbox_ops ?d1)" "state p = Pending" using getPending_member [OF p] by simp_all
    then show False using same_id_same_row [OF d1 r1 _ eq] st(2) by auto
  qed
  have "opId ` set (getByIds (map opId ?pending) ?d2) \<subseteq> opId ` set ?pending"
    by (auto simp: getByIds_def)
  then show "opId r \<notin> opId ` set (fst (claimPending scope n now db))"
    using notin by (auto simp: cp)
qed

text \<open>
  C5. With unique operation ids, a row whose state is succeeded or failed is still in the
  table, unchanged, after any \<open>processBatch\<close>, \<open>claimPending\<close> or \<open>resetStaleInFlight\<close>; no row is
  added or removed, its id is in no call to the push adapter and in no claim. An operation
  found exhausted (\<open>attemptCount \<ge> maxAttempts\<close>) is set to failed. A claimed operation whose
  push fails becomes the row \<open>afterFailure\<close> describes, which is failed as soon as the
  failure is the one that uses up the attempts (\<open>attemptCount + 1 \<ge> maxAttempts\<close>).
\<close>

theorem terminal_ops_stay_terminal:
  assumes uniq: "uniqueOpIds db" and r: "r \<in> set (outbox_ops db)" and t: "terminal r"
  shows "r \<in> set (outbox_ops (snd (snd (processBatch adapter elapsed now scope (proc, db)))))
    \<and> map opId (outbox_ops (snd (snd (processBatch adapter elapsed now scope (proc, db))))) = map opId (outbox_ops db)
    \<and> (\<forall>call \<in> set (adapterCalls (fst (processBatch adapter elapsed now scope (proc, db)))).
          opId r \<notin> plId ` set (snd call))
    \<and> r \<in> set (outbox_ops (snd (claimPending scope n now db)))
    \<and> opId r \<notin> opId ` set (fst (claimPending scope n now db))
    \<and> r \<in> set (outbox_ops (snd (resetStaleInFlight scope staleMs now db)))
    \<and> (\<not> isProcessing proc \<and> x \<in> set (exhaustedOpsOf (config proc) now scope db) \<longrightarrow>
          x\<lparr>state := Failed,
            lastErrorJson := Some (safeJsonEncode (errorJson
                \<lparr> code = ''max_attempts'', message = ''Max retry attempts reached'' \<rparr>)),
            opUpdatedAt := now\<rparr>
            \<in> set (outbox_ops (snd (snd (processBatch adapter elapsed now scope (proc, db))))))
    \<and> (\<not> isProcessing proc \<and> x \<in> set (readyOpsOf (config proc) elapsed now scope db)
          \<and> adapter scope (map toAdapterOp (readyOpsOf (config proc) elapsed now scope db)) = Inr results
          \<and> resultsByIdMap results (opId x) = Some (PushFailed i retryable err) \<longrightarrow>
          afterFailure (config proc) now retryable err x
            \<in> set (outbox_ops (snd (snd (processBatch adapter elapsed now scope (proc, db)))))
          \<and> (int (attemptCount x) + 1 \<ge> maxAttempts (config proc) \<longrightarrow>
                state (afterFailure (config proc) now retryable err x) = Failed))"
proof -
  let ?cfg = "config proc"
  let ?out = "processBatch adapter elapsed now scope (proc, db)"
  let ?db' = "snd (snd ?out)"
  let ?db1 = "snd (resetStaleInFlight scope (5 * 60 * 1000) now db)"
  let ?exh = "exhaustedOpsOf ?cfg now scope db"
  let ?ready = "readyOpsOf ?cfg elapsed now scope db"
  let ?maxErr = "Some \<lparr> code = ''max_attempts'', message = ''Max retry attempts reached'' \<rparr>"
  let ?db2 = "foldl (\<lambda>d op. updateState (opId op) Failed ?maxErr now d) ?db1 ?exh"
  let ?db3 = "claimByIds (map opId ?ready) now ?db2"
  let ?db4 = "\<lambda>results. snd (foldl (reconcileOp ?cfg now (resultsByIdMap results)) (0, ?db3) ?ready)"
  have st: "state r \<noteq> InFlight" "state r \<noteq> Pending" using t by (auto simp: terminal_def)
  have nid: "opId r \<notin> opId ` set (pendingOpsOf ?cfg now scope db)"
    using uniq r t by (rule terminal_not_pending_id)
  have nid_exh: "opId r \<notin> opId ` set ?exh" using nid exhausted_subset by blast
  have nid_ready: "opId r \<notin> opId ` set ?ready" using nid ready_subset by blast
  have r1: "r \<in> set (outbox_ops ?db1)" using r st(1) by (rule resetStale_other)
  have r2: "r \<in> set (outbox_ops ?db2)" using r1 nid_exh by (rule exhaust_fold_other)
  have r3: "r \<in> set (outbox_ops ?db3)" using r2 st(2) by (rule claimByIds_not_pending)
  have r4: "r \<in> set (outbox_ops (?db4 results'))" for results'
    using r3 nid_ready by (intro reconcile_fold_other) simp_all
  have ids1: "map opId (outbox_ops ?db1) = map opId (outbox_ops db)" by (rule resetStale_ids)
  have ids2: "map opId (outbox_ops ?db2) = map opId (outbox_ops db)" by (simp add: exhaust_fold_ids resetStale_ids)
  have ids3: "map opId (outbox_ops ?db3) = map opId (outbox_ops db)" by (simp add: claimByIds_ids exhaust_fold_ids resetStale_ids)
  have ids4: "map opId (outbox_ops (?db4 results')) = map opId (outbox_ops db)" for results'
    by (simp add: reconcile_fold_ids claimByIds_ids exhaust_fold_ids resetStale_ids)
  have reset: "r \<in> set (outbox_ops (snd (resetStaleInFlight scope staleMs now db)))"
    using r st(1) by (rule resetStale_other)
  note claim = claimPending_terminal [OF uniq r t, of scope n now]
  show ?thesis
  proof (cases "isProcessing proc")
    case True
    then show ?thesis using r reset claim by (simp add: processBatch_def)
  next
    case False
    note idle = processBatch_idle [OF False, of adapter elapsed now scope db]
    have shape: "?db' = ?db1 \<and> pendingOpsOf ?cfg now scope db = []
                 \<or> ?db' = ?db2 \<and> pendingOpsOf ?cfg now scope db \<noteq> [] \<and> ?ready = []
                 \<or> ?db' = ?db3 \<and> ?ready \<noteq> [] \<and> (\<exists>e. adapter scope (map toAdapterOp ?ready) = Inl e)
                 \<or> (\<exists>res. ?db' = ?db4 res \<and> ?ready \<noteq> [] \<and> adapter scope (map toAdapterOp ?ready) = Inr res)"
      unfolding idle Let_def by (auto split: sum.splits)
    have calls: "adapterCalls (fst ?out) = [] \<or> adapterCalls (fst ?out) = [(scope, map toAdapterOp ?ready)]"
      unfolding idle Let_def by (auto split: sum.splits)
    have kept: "r \<in> set (outbox_ops ?db')" using shape r1 r2 r3 r4 by auto
    have ids: "map opId (outbox_ops ?db') = map opId (outbox_ops db)" using shape ids1 ids2 ids3 ids4 by auto
    have sent: "\<forall>call \<in> set (adapterCalls (fst ?out)). opId r \<notin> plId ` set (snd call)"
    proof -
      have "plId ` set (map toAdapterOp ?ready) = opId ` set ?ready"
        by (auto simp: toAdapterOp_def image_iff)
      then show ?thesis using calls nid_ready by auto
    qed
    have exhausted: "x\<lparr>state := Failed, lastErrorJson := Some (safeJsonEncode (errorJson
                \<lparr> code = ''max_attempts'', message = ''Max retry attempts reached'' \<rparr>)),
            opUpdatedAt := now\<rparr> \<in> set (outbox_ops ?db')"
      (is "?x' \<in> _") if x: "x \<in> set ?exh"
    proof -
      have xp: "x \<in> set (pendingOpsOf ?cfg now scope db)" using x exhausted_subset by blast
      then have x1: "x \<in> set (outbox_ops ?db1)" using pendingOps_member by blast
      have "x\<lparr>state := Failed,
               lastErrorJson := (case ?maxErr of Some e \<Rightarrow> Some (safeJsonEncode (errorJson e)) | None \<Rightarrow> None),
               opUpdatedAt := now\<rparr> \<in> set (outbox_ops ?db2)"
        using exhaustedOps_distinct_ids [OF uniq] x x1 by (rule exhaust_fold_hit)
      then have x2: "?x' \<in> set (outbox_ops ?db2)" by simp
      have x3: "?x' \<in> set (outbox_ops ?db3)" using x2 by (rule claimByIds_not_pending) simp
      have "opId ?x' \<notin> opId ` set ?ready"
        using exhausted_ready_disjoint_ids [OF uniq x] by auto
      then have x4: "?x' \<in> set (outbox_ops (?db4 res))" for res
        using x3 by (intro reconcile_fold_other) simp_all
      have "pendingOpsOf ?cfg now scope db \<noteq> []" using xp by auto
      then show ?thesis using shape x2 x3 x4 by auto
    qed
    have failed: "afterFailure ?cfg now retryable err x \<in> set (outbox_ops ?db')"
      if x: "x \<in> set ?ready" and push: "adapter scope (map toAdapterOp ?ready) = Inr results"
        and res: "resultsByIdMap results (opId x) = Some (PushFailed i retryable err)"
    proof -
      have xp: "x \<in> set (pendingOpsOf ?cfg now scope db)" using x ready_subset by blast
      then have x1: "x \<in> set (outbox_ops ?db1)" and pend: "state x = Pending"
        using pendingOps_member by blast+
      have "opId x \<notin> opId ` set ?exh"
        using exhausted_ready_disjoint_ids [OF uniq _ x] by force
      then have x2: "x \<in> set (outbox_ops ?db2)" using x1 by (intro exhaust_fold_other)
      have x3: "x\<lparr>state := InFlight, opUpdatedAt := now\<rparr> \<in> set (outbox_ops ?db3)"
        using x2 x pend by (intro claimByIds_hit) simp_all
      have "afterFailure ?cfg now retryable err (x\<lparr>state := InFlight, opUpdatedAt := now\<rparr>)
              \<in> set (outbox_ops (?db4 results))"
        by (rule reconcile_fold_hit_failed [where r = x and res = "resultsByIdMap results", OF readyOps_distinct_ids [OF uniq] x _ _ _ res])
           (insert x3, simp_all)
      moreover have "afterFailure ?cfg now retryable err (x\<lparr>state := InFlight, opUpdatedAt := now\<rparr>)
                       = afterFailure ?cfg now retryable err x"
        by (simp add: afterFailure_def)
      moreover have "?db' = ?db4 results" using shape push x xp by auto
      ultimately show ?thesis by simp
    qed
    have last: "int (attemptCount x) + 1 \<ge> maxAttempts ?cfg \<Longrightarrow>
                  state (afterFailure ?cfg now retryable err x) = Failed"
      by (simp add: afterFailure_def)
    show ?thesis using kept ids sent claim reset exhausted failed last False by simp
  qed
qed

theorem terminal_ops_stay_terminal_witness:
  "uniqueOpIds dbFourFailures
   \<and> map opId (outbox_ops dbFourFailures) = [''op-0'', ''op-1'']
   \<and> map state (outbox_ops dbFourFailures) = [Succeeded, Pending]
   \<and> map attemptCount (outbox_ops dbFourFailures) = [0, 4]
   \<and> readyOpsOf DEFAULT_CONFIG lateEnough 500000 workspaceScope dbFourFailures = [outbox_ops dbFourFailures ! 1]
   \<and> outbox_ops dbFourFailures ! 0 \<in> set (outbox_ops dbFiveFailures)
   \<and> afterFailure DEFAULT_CONFIG 500000 True
         \<lparr> code = ''stub_error'', message = ''Stub adapter: simulated failure'' \<rparr>
         (outbox_ops dbFourFailures ! 1) \<in> set (outbox_ops dbFiveFailures)
   \<and> map state (outbox_ops dbFiveFailures) = [Succeeded, Failed]
   \<and> map attemptCount (outbox_ops dbFiveFailures) = [0, 4]
   \<and> outbox_ops dbFiveFailures ! 1
         \<in> set (outbox_ops (snd (snd (processBatch stubFail lateEnough 600000 workspaceScope
                                          (idleProcessor, dbFiveFailures)))))
   \<and> adapterCalls (fst (processBatch stubFail lateEnough 600000 workspaceScope (idleProcessor, dbFiveFailures))) = []
   \<and> fst (claimPending workspaceScope 10 600000 dbFiveFailures) = []"
proof -
  let ?r = "outbox_ops dbFourFailures ! 0"
  let ?x = "outbox_ops dbFourFailures ! 1"
  let ?err = "\<lparr> code = ''stub_error'', message = ''Stub adapter: simulated failure'' \<rparr>"
  have u4: "uniqueOpIds dbFourFailures" by code_simp
  have ids4: "map opId (outbox_ops dbFourFailures) = [''op-0'', ''op-1'']" by code_simp
  have st4: "map state (outbox_ops dbFourFailures) = [Succeeded, Pending]" by code_simp
  have ac4: "map attemptCount (outbox_ops dbFourFailures) = [0, 4]" by code_simp
  have r4: "?r \<in> set (outbox_ops dbFourFailures)" by code_simp
  have t4: "terminal ?r" by code_simp
  have cfg: "config idleProcessor = DEFAULT_CONFIG" and idle: "\<not> isProcessing idleProcessor"
    by (simp_all add: idleProcessor_def)
  have ready: "readyOpsOf DEFAULT_CONFIG lateEnough 500000 workspaceScope dbFourFailures = [?x]"
    by code_simp
  have push: "stubFail workspaceScope (map toAdapterOp [?x]) = Inr [PushFailed ''op-1'' True ?err]"
    by code_simp
  have res: "resultsByIdMap [PushFailed ''op-1'' True ?err] (opId ?x) = Some (PushFailed ''op-1'' True ?err)"
    by code_simp
  have last: "int (attemptCount ?x) + 1 \<ge> maxAttempts DEFAULT_CONFIG" by code_simp
  have five: "dbFiveFailures = snd (snd (processBatch stubFail lateEnough 500000 workspaceScope
                                           (idleProcessor, dbFourFailures)))"
    by (simp add: dbFiveFailures_def failRound_def)
  have step: "?r \<in> set (outbox_ops dbFiveFailures)
              \<and> afterFailure DEFAULT_CONFIG 500000 True ?err ?x \<in> set (outbox_ops dbFiveFailures)"
    using terminal_ops_stay_terminal [OF u4 r4 t4, where adapter = stubFail and elapsed = lateEnough
        and now = 500000 and scope = workspaceScope and proc = idleProcessor and x = ?x
        and results = "[PushFailed ''op-1'' True ?err]" and i = "''op-1''" and retryable = True and err = ?err]
      cfg idle ready push res last
    by (simp add: five)
  have u5: "uniqueOpIds dbFiveFailures" by code_simp
  have st5: "map state (outbox_ops dbFiveFailures) = [Succeeded, Failed]" by code_simp
  have ac5: "map attemptCount (outbox_ops dbFiveFailures) = [0, 4]" by code_simp
  have r5: "outbox_ops dbFiveFailures ! 1 \<in> set (outbox_ops dbFiveFailures)" by code_simp
  have t5: "terminal (outbox_ops dbFiveFailures ! 1)" by code_simp
  have calls: "adapterCalls (fst (processBatch stubFail lateEnough 600000 workspaceScope
                                     (idleProcessor, dbFiveFailures))) = []"
    by code_simp
  have none: "fst (claimPending workspaceScope 10 600000 dbFiveFailures) = []" by code_simp
  have kept: "outbox_ops dbFiveFailures ! 1
         \<in> set (outbox_ops (snd (snd (processBatch stubFail lateEnough 600000 workspaceScope
                                          (idleProcessor, dbFiveFailures)))))"
    using terminal_ops_stay_terminal [OF u5 r5 t5, where adapter = stubFail and elapsed = lateEnough
        and now = 600000 and scope = workspaceScope and proc = idleProcessor]
    by simp
  show ?thesis
    using u4 ids4 st4 ac4 ready step st5 ac5 kept calls none by simp
qed

end
